theory Spec2Isabelle
  imports Main
begin

section \<open>Strings\<close>

text \<open>
  A JavaScript string is the list of its UTF-16 code units. \<open>str\<close> gives the string of
  an ASCII literal. \<open>includesStr s t\<close> is \<open>s.includes(t)\<close>: \<open>t\<close> occurs in \<open>s\<close> as a
  contiguous run of code units.

  \<open>String.prototype.toLowerCase\<close> is the engine's, not the program's: every
  definition below takes it as the parameter \<open>toLower\<close>, and every general theorem holds
  for whatever function it is.
\<close>

type_synonym jsString = "nat list"

definition str :: "string \<Rightarrow> jsString" where
  "str s = map of_char s"

fun startsWith :: "jsString \<Rightarrow> jsString \<Rightarrow> bool" where
  "startsWith s [] = True"
| "startsWith [] (y # ys) = False"
| "startsWith (x # xs) (y # ys) = (x = y \<and> startsWith xs ys)"

fun includesStr :: "jsString \<Rightarrow> jsString \<Rightarrow> bool" where
  "includesStr [] t = (t = [])"
| "includesStr (c # cs) t = (startsWith (c # cs) t \<or> includesStr cs t)"

text \<open>\<open>x?.toLowerCase() || ''\<close> for an attribute value that may be \<open>null\<close>.\<close>

definition lowerOrEmpty :: "(jsString \<Rightarrow> jsString) \<Rightarrow> jsString option \<Rightarrow> jsString" where
  "lowerOrEmpty toLower a = (case a of None \<Rightarrow> [] | Some s \<Rightarrow> toLower s)"

text \<open>The ASCII case folding that HTML applies to the keywords of the \<open>type\<close>
  attribute.\<close>

definition asciiLowerUnit :: "nat \<Rightarrow> nat" where
  "asciiLowerUnit c = (if 65 \<le> c \<and> c \<le> 90 then c + 32 else c)"

definition asciiLower :: "jsString \<Rightarrow> jsString" where
  "asciiLower s = map asciiLowerUnit s"

section \<open>The document tree as the scans see it\<close>

text \<open>
  An element carries what the in-page functions read: its lower-case tag name, its
  attributes (\<open>getAttribute\<close> is a lookup; names are lower case), its text content,
  the size of its bounding box (only the sign is read), the computed \<open>display\<close> and
  \<open>visibility\<close>, and, for an \<open>iframe\<close>, what \<open>contentDocument ||
  contentWindow?.document\<close> gives: no document, a security error (cross-origin), or
  the frame's document. A document is the list of its elements in document order.
\<close>

datatype frame = NoDocument | CrossOrigin | SameOrigin "element list"
and element =
  Element (tagName: string) (attributes: "(string \<times> jsString) list") (textContent: jsString)
    (rectWidth: int) (rectHeight: int) (styleDisplay: string) (styleVisibility: string)
    (contentFrame: frame)

type_synonym document = "element list"

definition getAttribute :: "element \<Rightarrow> string \<Rightarrow> jsString option" where
  "getAttribute el n = map_of (attributes el) n"

text \<open>The \<open>placeholder\<close> and \<open>disabled\<close> properties of an input or textarea reflect
  the attributes of the same name.\<close>

definition placeholder :: "element \<Rightarrow> jsString" where
  "placeholder el = (case getAttribute el ''placeholder'' of None \<Rightarrow> [] | Some s \<Rightarrow> s)"

definition disabled :: "element \<Rightarrow> bool" where
  "disabled el = (case getAttribute el ''disabled'' of None \<Rightarrow> False | Some _ \<Rightarrow> True)"

text \<open>
  The setter of \<open>value\<close>: on an input in the file-upload state every value but the
  empty string is refused with an \<open>InvalidStateError\<close>; on every other input and on a
  textarea the assignment goes through.
\<close>

definition valueSetterThrows :: "element \<Rightarrow> jsString \<Rightarrow> bool" where
  "valueSetterThrows el v =
     (tagName el = ''input'' \<and>
      map_option asciiLower (getAttribute el ''type'') = Some (str ''file'') \<and> v \<noteq> [])"

definition invalidStateError :: string where
  "invalidStateError = ''InvalidStateError''"

text \<open>\<open>querySelectorAll\<close> for the three selector lists of the source. The value of
  \<open>type\<close> is compared without regard to ASCII case, as in a web document; \<open>role\<close> is
  compared exactly.\<close>

definition isClickable :: "element \<Rightarrow> bool" where
  "isClickable el =
     (tagName el = ''button'' \<or> tagName el = ''a'' \<or>
      getAttribute el ''role'' = Some (str ''button'') \<or>
      getAttribute el ''role'' = Some (str ''tab'') \<or>
      (tagName el = ''input'' \<and>
       map_option asciiLower (getAttribute el ''type'') = Some (str ''button'')))"

definition isInput :: "element \<Rightarrow> bool" where
  "isInput el = (tagName el = ''input'' \<or> tagName el = ''textarea'')"

definition isIframe :: "element \<Rightarrow> bool" where
  "isIframe el = (tagName el = ''iframe'')"

definition querySelectorAll :: "(element \<Rightarrow> bool) \<Rightarrow> document \<Rightarrow> element list" where
  "querySelectorAll sel doc = filter sel doc"

section \<open>Effects\<close>

text \<open>
  What a call does is recorded as a trace: log lines, remote evaluations (one per scan
  pass), the in-page actions on elements, and timed waits. An exception is its message.
  A remote call may fail: an evaluation before the in-page function ran or after it
  (the page navigated or closed meanwhile), a wait when the page closes. An exception
  thrown by the in-page function itself rejects the evaluation with it. The logger
  and \<open>isClosed\<close> do not throw.
\<close>

datatype pass = MainPass | IframePass | PopupPass

datatype logLine =
    ClickSearch jsString | ClickedMainPage | ClickedIframe | ClickedPopup
  | ClickNotFound jsString | ClickError string
  | FillSearch jsString | FilledMainPage | FilledIframe | FilledPopup
  | FillNotFound jsString | FillError string

datatype event =
    Log logLine
  | Evaluate pass
  | ScrollIntoView element
  | Click element
  | SetValue element jsString
  | DispatchEvent element string
  | WaitForTimeout nat

datatype fault = FaultBefore string | FaultAfter string

record page =
  isClosed :: bool
  document :: document
  evaluateFault :: "pass \<Rightarrow> fault option"
  waitFault :: "string option"

text \<open>What the functions read from outside their parameters: \<open>state.page\<close> (possibly
  unset) and \<open>allPages\<close> (entries possibly null), as they are for the duration of one
  call, and the engine's \<open>toLowerCase\<close>.\<close>

record globals =
  state_page :: "page option"
  allPages :: "page option list"
  toLowerCase :: "jsString \<Rightarrow> jsString"

type_synonym 'a result = "(string + 'a) \<times> event list"

definition ret :: "'a \<Rightarrow> 'a result" where
  "ret v = (Inr v, [])"

definition andThen :: "'a result \<Rightarrow> ('a \<Rightarrow> 'b result) \<Rightarrow> 'b result" where
  "andThen m f =
     (case m of
        (Inl e, tr) \<Rightarrow> (Inl e, tr)
      | (Inr v, tr) \<Rightarrow> (case f v of (r, tr') \<Rightarrow> (r, tr @ tr')))"

definition tryCatch :: "'a result \<Rightarrow> (string \<Rightarrow> 'a result) \<Rightarrow> 'a result" where
  "tryCatch body handler =
     (case body of
        (Inl e, tr) \<Rightarrow> (case handler e of (r, tr') \<Rightarrow> (r, tr @ tr'))
      | (Inr v, tr) \<Rightarrow> (Inr v, tr))"

definition log :: "logLine \<Rightarrow> unit result" where
  "log l = (Inr (), [Log l])"

definition evaluate :: "page \<Rightarrow> pass \<Rightarrow> (document \<Rightarrow> 'a result) \<Rightarrow> 'a result" where
  "evaluate pg ps f =
     (case evaluateFault pg ps of
        Some (FaultBefore e) \<Rightarrow> (Inl e, [Evaluate ps])
      | Some (FaultAfter e) \<Rightarrow> (Inl e, Evaluate ps # snd (f (document pg)))
      | None \<Rightarrow> (fst (f (document pg)), Evaluate ps # snd (f (document pg))))"

definition waitForTimeout :: "page \<Rightarrow> nat \<Rightarrow> unit result" where
  "waitForTimeout pg ms =
     (case waitFault pg of
        Some e \<Rightarrow> (Inl e, [WaitForTimeout ms])
      | None \<Rightarrow> (Inr (), [WaitForTimeout ms]))"

section \<open>The click search\<close>

text \<open>The match conditions of the click scans: text, aria-label and title on the main
  page and in iframes; text and aria-label in popups.\<close>

definition clickMatch :: "(jsString \<Rightarrow> jsString) \<Rightarrow> jsString \<Rightarrow> element \<Rightarrow> bool" where
  "clickMatch toLower searchLower el =
     (let text = toLower (textContent el);
          ariaLabel = lowerOrEmpty toLower (getAttribute el ''aria-label'');
          title = lowerOrEmpty toLower (getAttribute el ''title'')
      in includesStr text searchLower \<or> includesStr ariaLabel searchLower \<or>
         includesStr title searchLower)"

definition clickMatchPopup :: "(jsString \<Rightarrow> jsString) \<Rightarrow> jsString \<Rightarrow> element \<Rightarrow> bool" where
  "clickMatchPopup toLower searchLower el =
     (let text = toLower (textContent el);
          ariaLabel = lowerOrEmpty toLower (getAttribute el ''aria-label'')
      in includesStr text searchLower \<or> includesStr ariaLabel searchLower)"

text \<open>Search 1, the in-page loop over the clickables of the main page.\<close>

fun clickMainLoop ::
  "(jsString \<Rightarrow> jsString) \<Rightarrow> jsString \<Rightarrow> element list \<Rightarrow> bool result" where
  "clickMainLoop toLower searchLower [] = (Inr False, [])"
| "clickMainLoop toLower searchLower (el # rest) =
     (if clickMatch toLower searchLower el
      then (if 0 < rectWidth el \<and> 0 < rectHeight el \<and>
               styleDisplay el \<noteq> ''none'' \<and> styleVisibility el \<noteq> ''hidden''
            then (Inr True, [ScrollIntoView el, Click el])
            else clickMainLoop toLower searchLower rest)
      else clickMainLoop toLower searchLower rest)"

definition mainPageClick ::
  "(jsString \<Rightarrow> jsString) \<Rightarrow> jsString \<Rightarrow> document \<Rightarrow> bool result" where
  "mainPageClick toLower searchText doc =
     clickMainLoop toLower (toLower searchText) (querySelectorAll isClickable doc)"

text \<open>Search 2, the loop over the iframes of the main document and, inside, over the
  clickables of each frame document that can be read. The body of the outer loop is
  inside a \<open>try\<close>: what is thrown there is dropped and the next iframe is tried.\<close>

fun clickFrameLoop ::
  "(jsString \<Rightarrow> jsString) \<Rightarrow> jsString \<Rightarrow> element list \<Rightarrow> bool result" where
  "clickFrameLoop toLower searchLower [] = (Inr False, [])"
| "clickFrameLoop toLower searchLower (el # rest) =
     (if clickMatch toLower searchLower el
      then (if 0 < rectWidth el \<and> 0 < rectHeight el
            then (Inr True, [ScrollIntoView el, Click el])
            else clickFrameLoop toLower searchLower rest)
      else clickFrameLoop toLower searchLower rest)"

fun clickIframesLoop ::
  "(jsString \<Rightarrow> jsString) \<Rightarrow> jsString \<Rightarrow> element list \<Rightarrow> bool result" where
  "clickIframesLoop toLower searchLower [] = (Inr False, [])"
| "clickIframesLoop toLower searchLower (iframe # rest) =
     (case contentFrame iframe of
        NoDocument \<Rightarrow> clickIframesLoop toLower searchLower rest
      | CrossOrigin \<Rightarrow> clickIframesLoop toLower searchLower rest
      | SameOrigin iframeDoc \<Rightarrow>
          (case clickFrameLoop toLower searchLower (querySelectorAll isClickable iframeDoc) of
             (Inr True, evs) \<Rightarrow> (Inr True, evs)
           | (Inr False, evs) \<Rightarrow>
               (case clickIframesLoop toLower searchLower rest of (r, evs') \<Rightarrow> (r, evs @ evs'))
           | (Inl e, evs) \<Rightarrow>
               (case clickIframesLoop toLower searchLower rest of (r, evs') \<Rightarrow> (r, evs @ evs'))))"

definition iframeClick ::
  "(jsString \<Rightarrow> jsString) \<Rightarrow> jsString \<Rightarrow> document \<Rightarrow> bool result" where
  "iframeClick toLower searchText doc =
     clickIframesLoop toLower (toLower searchText) (querySelectorAll isIframe doc)"

text \<open>Search 3, the in-page loop run in each popup, and the loop over \<open>allPages\<close>.
  The body of that loop is inside its own \<open>try\<close>: a failing evaluation or wait moves on
  to the next popup.\<close>

fun clickPopupLoop ::
  "(jsString \<Rightarrow> jsString) \<Rightarrow> jsString \<Rightarrow> element list \<Rightarrow> bool result" where
  "clickPopupLoop toLower searchLower [] = (Inr False, [])"
| "clickPopupLoop toLower searchLower (el # rest) =
     (if clickMatchPopup toLower searchLower el
      then (Inr True, [ScrollIntoView el, Click el])
      else clickPopupLoop toLower searchLower rest)"

definition popupClick ::
  "(jsString \<Rightarrow> jsString) \<Rightarrow> jsString \<Rightarrow> document \<Rightarrow> bool result" where
  "popupClick toLower searchText doc =
     clickPopupLoop toLower (toLower searchText) (querySelectorAll isClickable doc)"

definition clickPopupStep :: "(jsString \<Rightarrow> jsString) \<Rightarrow> page \<Rightarrow> jsString \<Rightarrow> bool result" where
  "clickPopupStep toLower popup target =
     tryCatch
       (andThen (evaluate popup PopupPass (popupClick toLower target)) (\<lambda>popupClicked.
          if popupClicked
          then andThen (log ClickedPopup) (\<lambda>_.
               andThen (waitForTimeout popup 500) (\<lambda>_. ret True))
          else ret False))
       (\<lambda>e. ret False)"

fun clickPopups ::
  "(jsString \<Rightarrow> jsString) \<Rightarrow> page option list \<Rightarrow> jsString \<Rightarrow> bool result" where
  "clickPopups toLower [] target = ret False"
| "clickPopups toLower (None # rest) target = clickPopups toLower rest target"
| "clickPopups toLower (Some popup # rest) target =
     (if isClosed popup then clickPopups toLower rest target
      else andThen (clickPopupStep toLower popup target) (\<lambda>returned.
             if returned then ret True else clickPopups toLower rest target))"

definition clickSearch ::
  "(jsString \<Rightarrow> jsString) \<Rightarrow> page \<Rightarrow> page option list \<Rightarrow> jsString \<Rightarrow> bool result" where
  "clickSearch toLower pg pages target =
     andThen (evaluate pg MainPass (mainPageClick toLower target)) (\<lambda>mainPageClicked.
       if mainPageClicked
       then andThen (log ClickedMainPage) (\<lambda>_.
            andThen (waitForTimeout pg 500) (\<lambda>_. ret True))
       else
         andThen (evaluate pg IframePass (iframeClick toLower target)) (\<lambda>iframeClicked.
           if iframeClicked
           then andThen (log ClickedIframe) (\<lambda>_.
                andThen (waitForTimeout pg 500) (\<lambda>_. ret True))
           else
             andThen (clickPopups toLower pages target) (\<lambda>returned.
               if returned then ret True
               else andThen (log (ClickNotFound target)) (\<lambda>_. ret False))))"

definition clickWithRetry :: "globals \<Rightarrow> jsString \<Rightarrow> int \<Rightarrow> bool result" where
  "clickWithRetry g target maxRetries =
     (case state_page g of
        None \<Rightarrow> ret False
      | Some pg \<Rightarrow>
          if isClosed pg then ret False
          else andThen (log (ClickSearch target)) (\<lambda>_.
                 tryCatch (clickSearch (toLowerCase g) pg (allPages g) target)
                   (\<lambda>error. andThen (log (ClickError error)) (\<lambda>_. ret False))))"

section \<open>The fill search\<close>

text \<open>The match conditions of the fill scans: placeholder, aria-label, id and name on
  the main page and in iframes; placeholder and aria-label in popups.\<close>

definition fillMatch :: "(jsString \<Rightarrow> jsString) \<Rightarrow> jsString \<Rightarrow> element \<Rightarrow> bool" where
  "fillMatch toLower searchLower input =
     (let placeholder = toLower (placeholder input);
          label = lowerOrEmpty toLower (getAttribute input ''aria-label'');
          id = lowerOrEmpty toLower (getAttribute input ''id'');
          name = lowerOrEmpty toLower (getAttribute input ''name'')
      in includesStr placeholder searchLower \<or> includesStr label searchLower \<or>
         includesStr id searchLower \<or> includesStr name searchLower)"

definition fillMatchPopup :: "(jsString \<Rightarrow> jsString) \<Rightarrow> jsString \<Rightarrow> element \<Rightarrow> bool" where
  "fillMatchPopup toLower searchLower input =
     (let placeholder = toLower (placeholder input);
          label = lowerOrEmpty toLower (getAttribute input ''aria-label'')
      in includesStr placeholder searchLower \<or> includesStr label searchLower)"

text \<open>The three statements that fill a field: the assignment to \<open>value\<close>, which may
  throw, then the \<open>input\<close> and the \<open>change\<close> event.\<close>

definition assignValue :: "element \<Rightarrow> jsString \<Rightarrow> bool result" where
  "assignValue input fillValue =
     (if valueSetterThrows input fillValue then (Inl invalidStateError, [])
      else (Inr True, [SetValue input fillValue,
                       DispatchEvent input ''input'', DispatchEvent input ''change'']))"

text \<open>Search 1, the in-page loop over the inputs and textareas of the main page.\<close>

fun fillMainLoop ::
  "(jsString \<Rightarrow> jsString) \<Rightarrow> jsString \<Rightarrow> jsString \<Rightarrow> element list \<Rightarrow> bool result" where
  "fillMainLoop toLower searchLower fillValue [] = (Inr False, [])"
| "fillMainLoop toLower searchLower fillValue (input # rest) =
     (if fillMatch toLower searchLower input
      then (if 0 < rectWidth input \<and> 0 < rectHeight input \<and>
               styleDisplay input \<noteq> ''none'' \<and> styleVisibility input \<noteq> ''hidden'' \<and>
               \<not> disabled input
            then (case assignValue input fillValue of
                    (r, evs) \<Rightarrow> (r, ScrollIntoView input # evs))
            else fillMainLoop toLower searchLower fillValue rest)
      else fillMainLoop toLower searchLower fillValue rest)"

definition mainPageFill ::
  "(jsString \<Rightarrow> jsString) \<Rightarrow> jsString \<Rightarrow> jsString \<Rightarrow> document \<Rightarrow> bool result" where
  "mainPageFill toLower searchText fillValue doc =
     fillMainLoop toLower (toLower searchText) fillValue (querySelectorAll isInput doc)"

text \<open>Search 2, the loop over the iframes of the main document and, inside, over the
  inputs of each frame document that can be read. A refused assignment is thrown inside
  the \<open>try\<close> of the outer loop: the rest of that frame is left and the next iframe is
  tried.\<close>

fun fillFrameLoop ::
  "(jsString \<Rightarrow> jsString) \<Rightarrow> jsString \<Rightarrow> jsString \<Rightarrow> element list \<Rightarrow> bool result" where
  "fillFrameLoop toLower searchLower fillValue [] = (Inr False, [])"
| "fillFrameLoop toLower searchLower fillValue (input # rest) =
     (if fillMatch toLower searchLower input
      then assignValue input fillValue
      else fillFrameLoop toLower searchLower fillValue rest)"

fun fillIframesLoop ::
  "(jsString \<Rightarrow> jsString) \<Rightarrow> jsString \<Rightarrow> jsString \<Rightarrow> element list \<Rightarrow> bool result" where
  "fillIframesLoop toLower searchLower fillValue [] = (Inr False, [])"
| "fillIframesLoop toLower searchLower fillValue (iframe # rest) =
     (case contentFrame iframe of
        NoDocument \<Rightarrow> fillIframesLoop toLower searchLower fillValue rest
      | CrossOrigin \<Rightarrow> fillIframesLoop toLower searchLower fillValue rest
      | SameOrigin iframeDoc \<Rightarrow>
          (case fillFrameLoop toLower searchLower fillValue
                  (querySelectorAll isInput iframeDoc) of
             (Inr True, evs) \<Rightarrow> (Inr True, evs)
           | (Inr False, evs) \<Rightarrow>
               (case fillIframesLoop toLower searchLower fillValue rest of
                  (r, evs') \<Rightarrow> (r, evs @ evs'))
           | (Inl e, evs) \<Rightarrow>
               (case fillIframesLoop toLower searchLower fillValue rest of
                  (r, evs') \<Rightarrow> (r, evs @ evs'))))"

definition iframeFill ::
  "(jsString \<Rightarrow> jsString) \<Rightarrow> jsString \<Rightarrow> jsString \<Rightarrow> document \<Rightarrow> bool result" where
  "iframeFill toLower searchText fillValue doc =
     fillIframesLoop toLower (toLower searchText) fillValue (querySelectorAll isIframe doc)"

text \<open>Search 3, the in-page loop run in each popup, and the loop over \<open>allPages\<close>. A
  refused assignment rejects the popup's evaluation, and the \<open>try\<close> around it moves on
  to the next popup.\<close>

fun fillPopupLoop ::
  "(jsString \<Rightarrow> jsString) \<Rightarrow> jsString \<Rightarrow> jsString \<Rightarrow> element list \<Rightarrow> bool result" where
  "fillPopupLoop toLower searchLower fillValue [] = (Inr False, [])"
| "fillPopupLoop toLower searchLower fillValue (input # rest) =
     (if fillMatchPopup toLower searchLower input
      then assignValue input fillValue
      else fillPopupLoop toLower searchLower fillValue rest)"

definition popupFill ::
  "(jsString \<Rightarrow> jsString) \<Rightarrow> jsString \<Rightarrow> jsString \<Rightarrow> document \<Rightarrow> bool result" where
  "popupFill toLower searchText fillValue doc =
     fillPopupLoop toLower (toLower searchText) fillValue (querySelectorAll isInput doc)"

definition fillPopupStep ::
  "(jsString \<Rightarrow> jsString) \<Rightarrow> page \<Rightarrow> jsString \<Rightarrow> jsString \<Rightarrow> bool result" where
  "fillPopupStep toLower popup target val =
     tryCatch
       (andThen (evaluate popup PopupPass (popupFill toLower target val)) (\<lambda>popupFilled.
          if popupFilled
          then andThen (log FilledPopup) (\<lambda>_.
               andThen (waitForTimeout popup 300) (\<lambda>_. ret True))
          else ret False))
       (\<lambda>e. ret False)"

fun fillPopups ::
  "(jsString \<Rightarrow> jsString) \<Rightarrow> page option list \<Rightarrow> jsString \<Rightarrow> jsString \<Rightarrow> bool result" where
  "fillPopups toLower [] target val = ret False"
| "fillPopups toLower (None # rest) target val = fillPopups toLower rest target val"
| "fillPopups toLower (Some popup # rest) target val =
     (if isClosed popup then fillPopups toLower rest target val
      else andThen (fillPopupStep toLower popup target val) (\<lambda>returned.
             if returned then ret True else fillPopups toLower rest target val))"

definition fillSearch ::
  "(jsString \<Rightarrow> jsString) \<Rightarrow> page \<Rightarrow> page option list \<Rightarrow> jsString \<Rightarrow> jsString \<Rightarrow>
   bool result" where
  "fillSearch toLower pg pages target val =
     andThen (evaluate pg MainPass (mainPageFill toLower target val)) (\<lambda>mainPageFilled.
       if mainPageFilled
       then andThen (log FilledMainPage) (\<lambda>_.
            andThen (waitForTimeout pg 300) (\<lambda>_. ret True))
       else
         andThen (evaluate pg IframePass (iframeFill toLower target val)) (\<lambda>iframeFilled.
           if iframeFilled
           then andThen (log FilledIframe) (\<lambda>_.
                andThen (waitForTimeout pg 300) (\<lambda>_. ret True))
           else
             andThen (fillPopups toLower pages target val) (\<lambda>returned.
               if returned then ret True
               else andThen (log (FillNotFound target)) (\<lambda>_. ret False))))"

definition fillWithRetry :: "globals \<Rightarrow> jsString \<Rightarrow> jsString \<Rightarrow> int \<Rightarrow> bool result" where
  "fillWithRetry g target val maxRetries =
     (case state_page g of
        None \<Rightarrow> ret False
      | Some pg \<Rightarrow>
          if isClosed pg then ret False
          else andThen (log (FillSearch target)) (\<lambda>_.
                 tryCatch (fillSearch (toLowerCase g) pg (allPages g) target val)
                   (\<lambda>error. andThen (log (FillError error)) (\<lambda>_. ret False))))"

section \<open>Notions of the specification and of the statements\<close>

text \<open>
  The label match as the specification words it (section 4.3): any of the normalized
  placeholder, aria-label, id, name, title or text content contains the normalized target.
\<close>

definition spec_labelMatch :: "(jsString \<Rightarrow> jsString) \<Rightarrow> jsString \<Rightarrow> element \<Rightarrow> bool" where
  "spec_labelMatch toLower target el =
     (includesStr (toLower (placeholder el)) (toLower target) \<or>
      includesStr (lowerOrEmpty toLower (getAttribute el ''aria-label'')) (toLower target) \<or>
      includesStr (lowerOrEmpty toLower (getAttribute el ''id'')) (toLower target) \<or>
      includesStr (lowerOrEmpty toLower (getAttribute el ''name'')) (toLower target) \<or>
      includesStr (lowerOrEmpty toLower (getAttribute el ''title'')) (toLower target) \<or>
      includesStr (toLower (textContent el)) (toLower target))"

text \<open>The visibility and enabled tests (section 4.3).\<close>

definition spec_visible :: "element \<Rightarrow> bool" where
  "spec_visible el =
     (0 < rectWidth el \<and> 0 < rectHeight el \<and>
      styleDisplay el \<noteq> ''none'' \<and> styleVisibility el \<noteq> ''hidden'')"

definition spec_enabled :: "element \<Rightarrow> bool" where
  "spec_enabled el = (\<not> disabled el)"

text \<open>The documents of the readable iframes of a document, one level down, in
  document order, and the elements that the iframe pass walks: those selected in each
  of these documents, one document after the other.\<close>

fun frameDocuments :: "element list \<Rightarrow> document list" where
  "frameDocuments [] = []"
| "frameDocuments (iframe # rest) =
     (case contentFrame iframe of
        NoDocument \<Rightarrow> frameDocuments rest
      | CrossOrigin \<Rightarrow> frameDocuments rest
      | SameOrigin iframeDoc \<Rightarrow> iframeDoc # frameDocuments rest)"


text \<open>A target is selector-like when it begins with \<open>#\<close>, \<open>.\<close> or \<open>[\<close> (section 4.1),
  and a direct lookup of \<open>#name\<close> is the first element whose id is \<open>name\<close>.\<close>

definition spec_isSelectorLike :: "jsString \<Rightarrow> bool" where
  "spec_isSelectorLike target =
     (case target of
        [] \<Rightarrow> False
      | c # _ \<Rightarrow> c = of_char CHR ''#'' \<or> c = of_char CHR ''.'' \<or> c = of_char CHR ''['')"

definition spec_idLookup :: "jsString \<Rightarrow> document \<Rightarrow> element option" where
  "spec_idLookup target doc =
     (case target of
        [] \<Rightarrow> None
      | c # name \<Rightarrow> if c = of_char CHR ''#''
                    then find (\<lambda>el. getAttribute el ''id'' = Some name) doc
                    else None)"

text \<open>The dropdown classification (section 4.4): the native selection list, role
  listbox or combobox, a dropdown or select class token, or the dropdown data attribute.\<close>

definition spec_isDropdown :: "element \<Rightarrow> bool" where
  "spec_isDropdown el =
     (tagName el = ''select'' \<or>
      getAttribute el ''role'' = Some (str ''listbox'') \<or>
      getAttribute el ''role'' = Some (str ''combobox'') \<or>
      includesStr (lowerOrEmpty asciiLower (getAttribute el ''class'')) (str ''dropdown'') \<or>
      includesStr (lowerOrEmpty asciiLower (getAttribute el ''class'')) (str ''select'') \<or>
      getAttribute el ''data-role'' = Some (str ''dropdown''))"

text \<open>Every element of every context: the elements of a document, with those of the
  readable frame documents below each of them at any depth, for the main page and for
  every entry of \<open>allPages\<close> that is set and open.\<close>

fun elementsOf :: "element \<Rightarrow> element list"
  and frameElements :: "frame \<Rightarrow> element list" where
  "elementsOf (Element tg at tx w h d v fr) = Element tg at tx w h d v fr # frameElements fr"
| "frameElements NoDocument = []"
| "frameElements CrossOrigin = []"
| "frameElements (SameOrigin doc) = concat (map elementsOf doc)"

definition documentElements :: "document \<Rightarrow> element list" where
  "documentElements doc = concat (map elementsOf doc)"

definition pageElements :: "page option \<Rightarrow> element list" where
  "pageElements p =
     (case p of
        None \<Rightarrow> []
      | Some pg \<Rightarrow> if isClosed pg then [] else documentElements (document pg))"

definition contextElements :: "globals \<Rightarrow> element list" where
  "contextElements g = pageElements (state_page g) @ concat (map pageElements (allPages g))"


text \<open>Counting in a trace: the scan passes (remote evaluations) and the passes of the
  whole chain (each begins with the scan of the main page). The error lines are those
  that the handler of the outer \<open>try\<close> writes.\<close>

fun isEvaluate :: "event \<Rightarrow> bool" where
  "isEvaluate (Evaluate ps) = True"
| "isEvaluate _ = False"

fun isMainEvaluate :: "event \<Rightarrow> bool" where
  "isMainEvaluate (Evaluate MainPass) = True"
| "isMainEvaluate _ = False"

definition scanPasses :: "event list \<Rightarrow> nat" where
  "scanPasses tr = length (filter isEvaluate tr)"

definition chainAttempts :: "event list \<Rightarrow> nat" where
  "chainAttempts tr = length (filter isMainEvaluate tr)"

fun isErrorLine :: "event \<Rightarrow> bool" where
  "isErrorLine (Log (ClickError e)) = True"
| "isErrorLine (Log (FillError e)) = True"
| "isErrorLine _ = False"

fun isSetValue :: "event \<Rightarrow> bool" where
  "isSetValue (SetValue el v) = True"
| "isSetValue _ = False"

text \<open>What an event of a click call, or of a fill call, may be: an action is on an
  element of the scanned kind that matched the case-folded target, and a fill never
  clicks, a click never assigns.\<close>

fun clickEvent :: "(jsString \<Rightarrow> jsString) \<Rightarrow> jsString \<Rightarrow> event \<Rightarrow> bool" where
  "clickEvent toLower searchLower (ScrollIntoView el) =
     (isClickable el \<and> clickMatch toLower searchLower el)"
| "clickEvent toLower searchLower (Click el) =
     (isClickable el \<and> clickMatch toLower searchLower el)"
| "clickEvent toLower searchLower (SetValue el v) = False"
| "clickEvent toLower searchLower (DispatchEvent el n) = False"
| "clickEvent toLower searchLower (Log l) = True"
| "clickEvent toLower searchLower (Evaluate ps) = True"
| "clickEvent toLower searchLower (WaitForTimeout ms) = True"

fun fillEvent :: "(jsString \<Rightarrow> jsString) \<Rightarrow> jsString \<Rightarrow> jsString \<Rightarrow> event \<Rightarrow> bool" where
  "fillEvent toLower searchLower fillValue (ScrollIntoView el) =
     (isInput el \<and> fillMatch toLower searchLower el)"
| "fillEvent toLower searchLower fillValue (SetValue el v) =
     (isInput el \<and> fillMatch toLower searchLower el \<and> v = fillValue)"
| "fillEvent toLower searchLower fillValue (DispatchEvent el n) =
     (isInput el \<and> fillMatch toLower searchLower el \<and> (n = ''input'' \<or> n = ''change''))"
| "fillEvent toLower searchLower fillValue (Click el) = False"
| "fillEvent toLower searchLower fillValue (Log l) = True"
| "fillEvent toLower searchLower fillValue (Evaluate ps) = True"
| "fillEvent toLower searchLower fillValue (WaitForTimeout ms) = True"

text \<open>In a trace every assignment is followed at once by the \<open>input\<close> and the
  \<open>change\<close> event on the same element.\<close>

definition assignmentsNotified :: "event list \<Rightarrow> bool" where
  "assignmentsNotified tr =
     (\<forall>el v. SetValue el v \<in> set tr \<longrightarrow>
        (\<exists>before after.
           tr = before @ [SetValue el v, DispatchEvent el ''input'', DispatchEvent el ''change'']
                  @ after))"

section \<open>A lower-casing function for the examples\<close>

text \<open>
  \<open>sampleToLowerCase\<close> is \<open>toLowerCase\<close> on the strings of the examples: it folds the
  capital letters of Basic Latin, of Latin-1 and of Greek, a capital sigma to the final
  sigma when a letter stands before it and none after it, and leaves every other code
  unit as it is. \<open>lowerUnit\<close> folds one code unit on its own, and two strings differ
  only in letter case when they are equal once every code unit is so folded.
\<close>

definition lowerUnit :: "nat \<Rightarrow> nat" where
  "lowerUnit c =
     (if (65 \<le> c \<and> c \<le> 90) \<or> (192 \<le> c \<and> c \<le> 222 \<and> c \<noteq> 215) \<or>
         (913 \<le> c \<and> c \<le> 937 \<and> c \<noteq> 930)
      then c + 32 else c)"

definition isLetterUnit :: "nat \<Rightarrow> bool" where
  "isLetterUnit c =
     ((65 \<le> c \<and> c \<le> 90) \<or> (97 \<le> c \<and> c \<le> 122) \<or>
      (192 \<le> c \<and> c \<le> 255 \<and> c \<noteq> 215 \<and> c \<noteq> 247) \<or>
      (913 \<le> c \<and> c \<le> 937 \<and> c \<noteq> 930) \<or> (945 \<le> c \<and> c \<le> 969))"

fun sampleLower :: "bool \<Rightarrow> jsString \<Rightarrow> jsString" where
  "sampleLower afterLetter [] = []"
| "sampleLower afterLetter (c # cs) =
     (if c = 931 \<and> afterLetter \<and> (case cs of [] \<Rightarrow> True | d # _ \<Rightarrow> \<not> isLetterUnit d)
      then 962 else lowerUnit c) # sampleLower (isLetterUnit c) cs"

definition sampleToLowerCase :: "jsString \<Rightarrow> jsString" where
  "sampleToLowerCase s = sampleLower False s"

definition differsOnlyInCase :: "jsString \<Rightarrow> jsString \<Rightarrow> bool" where
  "differsOnlyInCase a b = (map lowerUnit a = map lowerUnit b)"

section \<open>Example pages\<close>

definition openPage :: "document \<Rightarrow> page" where
  "openPage doc = \<lparr>isClosed = False, document = doc, evaluateFault = (\<lambda>ps. None), waitFault = None\<rparr>"

definition closedPage :: "document \<Rightarrow> page" where
  "closedPage doc = \<lparr>isClosed = True, document = doc, evaluateFault = (\<lambda>ps. None), waitFault = None\<rparr>"

definition crashingPage :: "document \<Rightarrow> page" where
  "crashingPage doc =
     \<lparr>isClosed = False, document = doc,
      evaluateFault = (\<lambda>ps. Some (FaultBefore ''Execution context was destroyed'')),
      waitFault = None\<rparr>"

definition withPages :: "page option \<Rightarrow> page option list \<Rightarrow> globals" where
  "withPages p pages = \<lparr>state_page = p, allPages = pages, toLowerCase = sampleToLowerCase\<rparr>"

definition onlyMain :: "document \<Rightarrow> globals" where
  "onlyMain doc = withPages (Some (openPage doc)) []"

definition submitButton :: element where
  "submitButton = Element ''button'' [] (str ''Submit'') 80 24 ''block'' ''visible'' NoDocument"


definition sigmaButton :: element where
  "sigmaButton = Element ''button'' [] [945, 963] 80 24 ''block'' ''visible'' NoDocument"

definition emailInput :: element where
  "emailInput =
     Element ''input'' [(''id'', str ''email'')] [] 200 24 ''block'' ''visible'' NoDocument"

definition functionIdInput :: element where
  "functionIdInput =
     Element ''input'' [(''placeholder'', str ''Function Id'')] [] 200 24 ''block''
       ''visible'' NoDocument"

definition contactInput :: element where
  "contactInput =
     Element ''input'' [(''placeholder'', str ''name@example.com'')] [] 200 24 ''block''
       ''visible'' NoDocument"

definition uploadInput :: element where
  "uploadInput =
     Element ''input'' [(''type'', str ''file''), (''name'', str ''upload'')] [] 200 24
       ''block'' ''visible'' NoDocument"

definition countrySelect :: element where
  "countrySelect =
     Element ''select'' [(''aria-label'', str ''Country'')] (str ''CanadaUSAMexico'') 200 24
       ''block'' ''visible'' NoDocument"

definition canadaOption :: element where
  "canadaOption =
     Element ''option'' [] (str ''Canada'') 200 24 ''block'' ''visible'' NoDocument"

definition stateCombobox :: element where
  "stateCombobox =
     Element ''input'' [(''aria-label'', str ''State''), (''role'', str ''combobox'')] []
       200 24 ''block'' ''visible'' NoDocument"

definition hiddenDisabledInput :: element where
  "hiddenDisabledInput =
     Element ''input'' [(''placeholder'', str ''Name''), (''disabled'', [])] [] 0 0
       ''none'' ''hidden'' NoDocument"

definition hiddenButton :: element where
  "hiddenButton =
     Element ''button'' [] (str ''Delete'') 0 0 ''none'' ''hidden'' NoDocument"

definition iframeOf :: "document \<Rightarrow> element" where
  "iframeOf doc = Element ''iframe'' [] [] 300 200 ''block'' ''visible'' (SameOrigin doc)"

definition framedHiddenInput :: globals where
  "framedHiddenInput = onlyMain [iframeOf [hiddenDisabledInput]]"

definition popupHiddenButton :: globals where
  "popupHiddenButton = withPages (Some (openPage [])) [Some (openPage [hiddenButton])]"

definition crashedThenSubmit :: globals where
  "crashedThenSubmit =
     withPages (Some (openPage []))
       [Some (crashingPage [submitButton]), Some (openPage [submitButton])]"

definition crashedMain :: globals where
  "crashedMain = withPages (Some (crashingPage [submitButton, emailInput])) []"

definition countryForm :: globals where
  "countryForm = onlyMain [countrySelect, canadaOption, stateCombobox]"

section \<open>Sequencing and catching\<close>

text \<open>
  Reading the two components of a sequenced or guarded computation.
\<close>

lemma fst_andThen:
  "fst (andThen m f) = (case fst m of Inl e \<Rightarrow> Inl e | Inr v \<Rightarrow> fst (f v))"
  by (simp add: andThen_def split: prod.splits sum.splits)

lemma snd_andThen:
  "snd (andThen m f) = (case fst m of Inl e \<Rightarrow> snd m | Inr v \<Rightarrow> snd m @ snd (f v))"
  by (simp add: andThen_def split: prod.splits sum.splits)

lemma fst_tryCatch:
  "fst (tryCatch m h) = (case fst m of Inl e \<Rightarrow> fst (h e) | Inr v \<Rightarrow> Inr v)"
  by (simp add: tryCatch_def split: prod.splits sum.splits)

lemma snd_tryCatch:
  "snd (tryCatch m h) = (case fst m of Inl e \<Rightarrow> snd m @ snd (h e) | Inr v \<Rightarrow> snd m)"
  by (simp add: tryCatch_def split: prod.splits sum.splits)

lemma tryCatch_returns:
  assumes "\<And>e. fst (h e) = Inr False"
  shows "\<exists>b. fst (tryCatch m h) = Inr b"
  using assms by (cases "fst m") (auto simp: fst_tryCatch)

lemmas step_defs =
  fst_andThen snd_andThen fst_tryCatch snd_tryCatch evaluate_def log_def ret_def
  waitForTimeout_def

section \<open>The loops as searches\<close>

text \<open>
  Each in-page loop is a search for the first element of its list that passes the
  loop's tests; the loop over the iframes searches the readable frame documents, one
  level down, in document order. What an in-page function returns has one of a few
  shapes: nothing found, one element acted on, or an assignment refused.
\<close>

lemma find_SomeD: "find P xs = Some x \<Longrightarrow> x \<in> set xs \<and> P x"
  by (induction xs) (auto split: if_splits)

lemma find_first:
  assumes "\<forall>x \<in> set pre. \<not> P x" and "P x"
  shows "find P (pre @ x # post) = Some x"
  using assms by (induction pre) simp_all

lemma find_none: "(\<And>x. x \<in> set xs \<Longrightarrow> \<not> P x) \<Longrightarrow> find P xs = None"
  by (simp add: find_None_iff)

lemma find_append_cases:
  "find P (xs @ ys) = (case find P xs of None \<Rightarrow> find P ys | Some x \<Rightarrow> Some x)"
  by (induction xs) simp_all

lemma clickMainLoop_find:
  "clickMainLoop L sl els =
     (case find (\<lambda>el. clickMatch L sl el \<and> spec_visible el) els of
        None \<Rightarrow> (Inr False, [])
      | Some el \<Rightarrow> (Inr True, [ScrollIntoView el, Click el]))"
  by (induction els) (simp_all add: spec_visible_def)

lemma clickFrameLoop_find:
  "clickFrameLoop L sl els =
     (case find (\<lambda>el. clickMatch L sl el \<and> 0 < rectWidth el \<and> 0 < rectHeight el) els of
        None \<Rightarrow> (Inr False, [])
      | Some el \<Rightarrow> (Inr True, [ScrollIntoView el, Click el]))"
  by (induction els) simp_all

lemma clickIframesLoop_find:
  "clickIframesLoop L sl ifs =
     (case find (\<lambda>el. clickMatch L sl el \<and> 0 < rectWidth el \<and> 0 < rectHeight el)
             (concat (map (querySelectorAll isClickable) (frameDocuments ifs))) of
        None \<Rightarrow> (Inr False, [])
      | Some el \<Rightarrow> (Inr True, [ScrollIntoView el, Click el]))"
proof (induction ifs)
  case Nil
  show ?case by simp
next
  case (Cons iframe rest)
  show ?case
  proof (cases "contentFrame iframe")
    case (SameOrigin d)
    then show ?thesis
      using Cons
      by (simp add: clickFrameLoop_find find_append_cases split: option.splits)
  qed (simp_all add: Cons)
qed

lemma clickPopupLoop_find:
  "clickPopupLoop L sl els =
     (case find (clickMatchPopup L sl) els of
        None \<Rightarrow> (Inr False, [])
      | Some el \<Rightarrow> (Inr True, [ScrollIntoView el, Click el]))"
  by (induction els) simp_all

lemma fillMainLoop_find:
  "fillMainLoop L sl v els =
     (case find (\<lambda>el. fillMatch L sl el \<and> spec_visible el \<and> spec_enabled el) els of
        None \<Rightarrow> (Inr False, [])
      | Some el \<Rightarrow> (fst (assignValue el v), ScrollIntoView el # snd (assignValue el v)))"
  by (induction els) (simp_all add: spec_visible_def spec_enabled_def split: prod.splits)

lemma fillFrameLoop_find:
  "fillFrameLoop L sl v els =
     (case find (fillMatch L sl) els of
        None \<Rightarrow> (Inr False, [])
      | Some el \<Rightarrow> assignValue el v)"
  by (induction els) simp_all

lemma fillPopupLoop_find:
  "fillPopupLoop L sl v els =
     (case find (fillMatchPopup L sl) els of
        None \<Rightarrow> (Inr False, [])
      | Some el \<Rightarrow> assignValue el v)"
  by (induction els) simp_all

lemma fillFrameLoop_quiet:
  "fst (fillFrameLoop L sl v els) \<noteq> Inr True \<Longrightarrow> snd (fillFrameLoop L sl v els) = []"
  by (auto simp: fillFrameLoop_find assignValue_def split: option.splits if_splits)

lemma fillIframesLoop_find:
  "fillIframesLoop L sl v ifs =
     (case find (\<lambda>d. fst (fillFrameLoop L sl v (querySelectorAll isInput d)) = Inr True)
             (frameDocuments ifs) of
        None \<Rightarrow> (Inr False, [])
      | Some d \<Rightarrow> fillFrameLoop L sl v (querySelectorAll isInput d))"
proof (induction ifs)
  case Nil
  show ?case by simp
next
  case (Cons iframe rest)
  show ?case
  proof (cases "contentFrame iframe")
    case (SameOrigin d)
    show ?thesis
    proof (cases "fst (fillFrameLoop L sl v (querySelectorAll isInput d)) = Inr True")
      case True
      with SameOrigin show ?thesis
        by (cases "fillFrameLoop L sl v (querySelectorAll isInput d)") simp
    next
      case False
      from fillFrameLoop_quiet [OF False] False SameOrigin Cons show ?thesis
        by (cases "fillFrameLoop L sl v (querySelectorAll isInput d)")
           (auto split: sum.splits bool.splits prod.splits)
    qed
  qed (simp_all add: Cons)
qed

lemma click_in_page_shape:
  assumes "r = mainPageClick L t doc \<or> r = iframeClick L t doc \<or> r = popupClick L t doc"
  shows "r = (Inr False, []) \<or>
         (\<exists>el. isClickable el \<and> clickMatch L (L t) el \<and>
               r = (Inr True, [ScrollIntoView el, Click el]))"
  using assms
  by (auto simp: mainPageClick_def clickMainLoop_find iframeClick_def clickIframesLoop_find
      popupClick_def clickPopupLoop_find querySelectorAll_def clickMatchPopup_def
      clickMatch_def Let_def
      split: option.splits dest!: find_SomeD)

lemma assignValue_shape:
  "assignValue el v = (Inl invalidStateError, []) \<and> valueSetterThrows el v \<or>
   assignValue el v =
     (Inr True, [SetValue el v, DispatchEvent el ''input'', DispatchEvent el ''change'']) \<and>
   \<not> valueSetterThrows el v"
  by (simp add: assignValue_def)

lemma fill_in_page_shape:
  assumes "r = mainPageFill L t v doc \<or> r = iframeFill L t v doc \<or> r = popupFill L t v doc"
  shows "r = (Inr False, []) \<or>
         (\<exists>el. isInput el \<and> fillMatch L (L t) el \<and>
            (r = (Inl invalidStateError, []) \<or>
             r = (Inl invalidStateError, [ScrollIntoView el]) \<or>
             r = (Inr True, [SetValue el v, DispatchEvent el ''input'',
                             DispatchEvent el ''change'']) \<or>
             r = (Inr True, [ScrollIntoView el, SetValue el v, DispatchEvent el ''input'',
                             DispatchEvent el ''change''])))"
proof -
  have a: "\<And>el. isInput el \<Longrightarrow> fillMatch L (L t) el \<Longrightarrow> r = assignValue el v \<Longrightarrow> ?thesis"
    using assignValue_shape by metis
  from assms consider "r = mainPageFill L t v doc" | "r = iframeFill L t v doc"
    | "r = popupFill L t v doc" by blast
  then show ?thesis
  proof cases
    case 1
    show ?thesis
    proof (cases "find (\<lambda>el. fillMatch L (L t) el \<and> spec_visible el \<and> spec_enabled el)
                    (filter isInput doc)")
      case None
      with 1 show ?thesis
        by (simp add: mainPageFill_def fillMainLoop_find querySelectorAll_def)
    next
      case (Some el)
      from find_SomeD [OF Some] have e: "isInput el" "fillMatch L (L t) el" by auto
      from 1 Some have "r = (fst (assignValue el v), ScrollIntoView el # snd (assignValue el v))"
        by (simp add: mainPageFill_def fillMainLoop_find querySelectorAll_def)
      with e assignValue_shape [of el v] show ?thesis by auto
    qed
  next
    case 2
    show ?thesis
    proof (cases "find (\<lambda>d. fst (fillFrameLoop L (L t) v (querySelectorAll isInput d)) = Inr True)
                    (frameDocuments (querySelectorAll isIframe doc))")
      case None
      with 2 show ?thesis
        by (simp add: iframeFill_def fillIframesLoop_find)
    next
      case (Some d)
      with 2 have r: "r = fillFrameLoop L (L t) v (querySelectorAll isInput d)"
        by (simp add: iframeFill_def fillIframesLoop_find)
      show ?thesis
      proof (cases "find (fillMatch L (L t)) (querySelectorAll isInput d)")
        case None
        with r show ?thesis by (simp add: fillFrameLoop_find)
      next
        case (Some el)
        from find_SomeD [OF Some] have "isInput el" "fillMatch L (L t) el"
          by (auto simp: querySelectorAll_def)
        moreover from r Some have "r = assignValue el v" by (simp add: fillFrameLoop_find)
        ultimately show ?thesis by (rule a)
      qed
    qed
  next
    case 3
    show ?thesis
    proof (cases "find (fillMatchPopup L (L t)) (querySelectorAll isInput doc)")
      case None
      with 3 show ?thesis by (simp add: popupFill_def fillPopupLoop_find)
    next
      case (Some el)
      from find_SomeD [OF Some] have "isInput el" "fillMatch L (L t) el"
        by (auto simp: querySelectorAll_def fillMatchPopup_def fillMatch_def Let_def)
      moreover from 3 Some have "r = assignValue el v"
        by (simp add: popupFill_def fillPopupLoop_find)
      ultimately show ?thesis by (rule a)
    qed
  qed
qed

section \<open>What a trace may contain\<close>

text \<open>
  Every action of a click call is on a clickable element that passed the click match
  for the case-folded target, and every action of a fill call is on an input or
  textarea that passed the fill match; the body of the outer \<open>try\<close> writes no error
  line. The facts are lifted from the in-page functions through sequencing and
  catching to the whole call.
\<close>

lemma click_in_page_all:
  assumes "\<And>el. isClickable el \<Longrightarrow> clickMatch L (L t) el \<Longrightarrow>
             P (ScrollIntoView el) \<and> P (Click el)"
  shows "list_all P (snd (mainPageClick L t doc))"
    and "list_all P (snd (iframeClick L t doc))"
    and "list_all P (snd (popupClick L t doc))"
  using click_in_page_shape [of "mainPageClick L t doc" L t doc]
    click_in_page_shape [of "iframeClick L t doc" L t doc]
    click_in_page_shape [of "popupClick L t doc" L t doc] assms
  by auto

lemma fill_in_page_all:
  assumes "\<And>el. isInput el \<Longrightarrow> fillMatch L (L t) el \<Longrightarrow>
             P (ScrollIntoView el) \<and> P (SetValue el v) \<and>
             P (DispatchEvent el ''input'') \<and> P (DispatchEvent el ''change'')"
  shows "list_all P (snd (mainPageFill L t v doc))"
    and "list_all P (snd (iframeFill L t v doc))"
    and "list_all P (snd (popupFill L t v doc))"
  using fill_in_page_shape [of "mainPageFill L t v doc" L t v doc]
    fill_in_page_shape [of "iframeFill L t v doc" L t v doc]
    fill_in_page_shape [of "popupFill L t v doc" L t v doc] assms
  by auto

lemma list_all_andThen:
  assumes "list_all P (snd m)" and "\<And>v. list_all P (snd (f v))"
  shows "list_all P (snd (andThen m f))"
  using assms by (cases "fst m") (simp_all add: snd_andThen)

lemma list_all_tryCatch:
  assumes "list_all P (snd m)" and "\<And>e. list_all P (snd (h e))"
  shows "list_all P (snd (tryCatch m h))"
  using assms by (cases "fst m") (simp_all add: snd_tryCatch)

lemma list_all_evaluate:
  assumes "P (Evaluate ps)" and "list_all P (snd (f (document pg)))"
  shows "list_all P (snd (evaluate pg ps f))"
  using assms by (simp add: evaluate_def split: option.splits fault.splits)

lemma list_all_log: "P (Log l) \<Longrightarrow> list_all P (snd (log l))"
  by (simp add: log_def)

lemma list_all_wait: "P (WaitForTimeout ms) \<Longrightarrow> list_all P (snd (waitForTimeout pg ms))"
  by (simp add: waitForTimeout_def split: option.splits)

lemma list_all_ret: "list_all P (snd (ret v))"
  by (simp add: ret_def)

lemmas list_all_steps =
  list_all_andThen list_all_tryCatch list_all_evaluate list_all_log list_all_wait list_all_ret

lemma clickPopups_all:
  assumes "\<And>ps. P (Evaluate ps)" and "\<And>ms. P (WaitForTimeout ms)"
    and "\<And>l. \<not> isErrorLine (Log l) \<Longrightarrow> P (Log l)"
    and "\<And>el. isClickable el \<Longrightarrow> clickMatch L (L t) el \<Longrightarrow>
             P (ScrollIntoView el) \<and> P (Click el)"
  shows "list_all P (snd (clickPopups L pages t))"
proof (induction pages)
  case Nil
  show ?case by (simp add: list_all_ret)
next
  case (Cons p pages)
  have s: "\<And>popup. list_all P (snd (clickPopupStep L popup t))"
    unfolding clickPopupStep_def
    by (intro list_all_steps click_in_page_all(3) assms) (simp_all add: list_all_steps assms)
  show ?case
  proof (cases p)
    case None
    with Cons show ?thesis by simp
  next
    case (Some popup)
    with Cons s [of popup] show ?thesis
      by (auto intro!: list_all_andThen simp: list_all_ret)
  qed
qed

lemma clickSearch_all:
  assumes "\<And>ps. P (Evaluate ps)" and "\<And>ms. P (WaitForTimeout ms)"
    and "\<And>l. \<not> isErrorLine (Log l) \<Longrightarrow> P (Log l)"
    and "\<And>el. isClickable el \<Longrightarrow> clickMatch L (L t) el \<Longrightarrow>
             P (ScrollIntoView el) \<and> P (Click el)"
  shows "list_all P (snd (clickSearch L pg pages t))"
  unfolding clickSearch_def
  by (intro list_all_steps click_in_page_all(1) assms)
     (auto intro!: list_all_steps click_in_page_all(2) clickPopups_all assms)

lemma fillPopups_all:
  assumes "\<And>ps. P (Evaluate ps)" and "\<And>ms. P (WaitForTimeout ms)"
    and "\<And>l. \<not> isErrorLine (Log l) \<Longrightarrow> P (Log l)"
    and "\<And>el. isInput el \<Longrightarrow> fillMatch L (L t) el \<Longrightarrow>
             P (ScrollIntoView el) \<and> P (SetValue el v) \<and>
             P (DispatchEvent el ''input'') \<and> P (DispatchEvent el ''change'')"
  shows "list_all P (snd (fillPopups L pages t v))"
proof (induction pages)
  case Nil
  show ?case by (simp add: list_all_ret)
next
  case (Cons p pages)
  have s: "\<And>popup. list_all P (snd (fillPopupStep L popup t v))"
    unfolding fillPopupStep_def
    by (intro list_all_steps fill_in_page_all(3) assms) (simp_all add: list_all_steps assms)
  show ?case
  proof (cases p)
    case None
    with Cons show ?thesis by simp
  next
    case (Some popup)
    with Cons s [of popup] show ?thesis
      by (auto intro!: list_all_andThen simp: list_all_ret)
  qed
qed

lemma fillSearch_all:
  assumes "\<And>ps. P (Evaluate ps)" and "\<And>ms. P (WaitForTimeout ms)"
    and "\<And>l. \<not> isErrorLine (Log l) \<Longrightarrow> P (Log l)"
    and "\<And>el. isInput el \<Longrightarrow> fillMatch L (L t) el \<Longrightarrow>
             P (ScrollIntoView el) \<and> P (SetValue el v) \<and>
             P (DispatchEvent el ''input'') \<and> P (DispatchEvent el ''change'')"
  shows "list_all P (snd (fillSearch L pg pages t v))"
  unfolding fillSearch_def
  by (intro list_all_steps fill_in_page_all(1) assms)
     (auto intro!: list_all_steps fill_in_page_all(2) fillPopups_all assms)

lemma clickSearch_events:
  "list_all (clickEvent L (L t)) (snd (clickSearch L pg pages t))"
  by (rule clickSearch_all) simp_all

lemma fillSearch_events:
  "list_all (fillEvent L (L t) v) (snd (fillSearch L pg pages t v))"
  by (rule fillSearch_all) simp_all

lemma search_no_error_line:
  "list_all (\<lambda>ev. \<not> isErrorLine ev) (snd (clickSearch L pg pages t))"
  "list_all (\<lambda>ev. \<not> isErrorLine ev) (snd (fillSearch L pg pages t v))"
  by (rule clickSearch_all, simp_all, rule fillSearch_all, simp_all)

lemma clickWithRetry_events:
  "list_all (clickEvent (toLowerCase g) (toLowerCase g t)) (snd (clickWithRetry g t m))"
  unfolding clickWithRetry_def
  by (auto intro!: list_all_steps clickSearch_events split: option.splits)

lemma fillWithRetry_events:
  "list_all (fillEvent (toLowerCase g) (toLowerCase g t) v) (snd (fillWithRetry g t v m))"
  unfolding fillWithRetry_def
  by (auto intro!: list_all_steps fillSearch_events split: option.splits)

lemma error_line_means_false:
  "Log (ClickError e) \<in> set (snd (clickWithRetry g t m)) \<Longrightarrow>
     fst (clickWithRetry g t m) = Inr False"
  "Log (FillError e) \<in> set (snd (fillWithRetry g t v m)) \<Longrightarrow>
     fst (fillWithRetry g t v m) = Inr False"
proof -
  have n: "\<And>tr e. list_all (\<lambda>ev. \<not> isErrorLine ev) tr \<Longrightarrow>
             Log (ClickError e) \<notin> set tr \<and> Log (FillError e) \<notin> set tr"
    by (auto simp: list_all_iff)
  show "Log (ClickError e) \<in> set (snd (clickWithRetry g t m)) \<Longrightarrow>
          fst (clickWithRetry g t m) = Inr False"
  proof (cases "state_page g")
    case None
    then show ?thesis by (simp add: clickWithRetry_def ret_def)
  next
    case (Some pg)
    assume a: "Log (ClickError e) \<in> set (snd (clickWithRetry g t m))"
    show ?thesis
    proof (cases "fst (clickSearch (toLowerCase g) pg (allPages g) t)")
      case (Inl x)
      with Some show ?thesis
        by (simp add: clickWithRetry_def step_defs)
    next
      case (Inr b)
      with Some a n [OF search_no_error_line(1) [of "toLowerCase g" pg "allPages g" t], of e]
      show ?thesis
        by (auto simp: clickWithRetry_def step_defs split: if_splits)
    qed
  qed
  show "Log (FillError e) \<in> set (snd (fillWithRetry g t v m)) \<Longrightarrow>
          fst (fillWithRetry g t v m) = Inr False"
  proof (cases "state_page g")
    case None
    then show ?thesis by (simp add: fillWithRetry_def ret_def)
  next
    case (Some pg)
    assume a: "Log (FillError e) \<in> set (snd (fillWithRetry g t v m))"
    show ?thesis
    proof (cases "fst (fillSearch (toLowerCase g) pg (allPages g) t v)")
      case (Inl x)
      with Some show ?thesis
        by (simp add: fillWithRetry_def step_defs)
    next
      case (Inr b)
      with Some a n [OF search_no_error_line(2) [of "toLowerCase g" pg "allPages g" t v], of e]
      show ?thesis
        by (auto simp: fillWithRetry_def step_defs split: if_splits)
    qed
  qed
qed

lemma main_fault_means_false:
  assumes "state_page g = Some pg" and "evaluateFault pg MainPass = Some f"
  shows "fst (clickWithRetry g t m) = Inr False" and "fst (fillWithRetry g t v m) = Inr False"
  using assms
  by (cases f; simp add: clickWithRetry_def clickSearch_def fillWithRetry_def fillSearch_def
      step_defs)+

lemma calls_return:
  "\<exists>b. fst (clickWithRetry g t m) = Inr b" "\<exists>b. fst (fillWithRetry g t v m) = Inr b"
proof -
  show "\<exists>b. fst (clickWithRetry g t m) = Inr b"
  proof (cases "state_page g")
    case None
    then show ?thesis by (auto simp: clickWithRetry_def ret_def)
  next
    case (Some pg)
    have "\<exists>b. fst (tryCatch (clickSearch (toLowerCase g) pg (allPages g) t)
                 (\<lambda>error. andThen (log (ClickError error)) (\<lambda>_. ret False))) = Inr b"
      by (rule tryCatch_returns) (simp add: fst_andThen log_def ret_def)
    with Some show ?thesis
      by (auto simp: clickWithRetry_def ret_def fst_andThen log_def)
  qed
  show "\<exists>b. fst (fillWithRetry g t v m) = Inr b"
  proof (cases "state_page g")
    case None
    then show ?thesis by (auto simp: fillWithRetry_def ret_def)
  next
    case (Some pg)
    have "\<exists>b. fst (tryCatch (fillSearch (toLowerCase g) pg (allPages g) t v)
                 (\<lambda>error. andThen (log (FillError error)) (\<lambda>_. ret False))) = Inr b"
      by (rule tryCatch_returns) (simp add: fst_andThen log_def ret_def)
    with Some show ?thesis
      by (auto simp: fillWithRetry_def ret_def fst_andThen log_def)
  qed
qed

section \<open>Scan passes, and when nothing matches\<close>

text \<open>
  The in-page functions evaluate nothing themselves, each popup costs at most one
  evaluation, and the two passes on the main page come before them, once each. Every
  list a scan walks is made of elements of the contexts, and each match condition of
  the code implies the label match of the specification; so when no element of any
  context matches, every pass finds nothing and the call ends in false.
\<close>

lemma no_evaluate_in_page:
  "filter isEvaluate (snd (mainPageClick L t doc)) = []"
  "filter isEvaluate (snd (iframeClick L t doc)) = []"
  "filter isEvaluate (snd (popupClick L t doc)) = []"
  "filter isEvaluate (snd (mainPageFill L t v doc)) = []"
  "filter isEvaluate (snd (iframeFill L t v doc)) = []"
  "filter isEvaluate (snd (popupFill L t v doc)) = []"
  using click_in_page_all [of L t "\<lambda>ev. \<not> isEvaluate ev" doc]
    fill_in_page_all [of L t "\<lambda>ev. \<not> isEvaluate ev" v doc]
  by (simp_all add: filter_empty_conv list_all_iff)

lemma isMainEvaluate_isEvaluate: "isMainEvaluate ev \<Longrightarrow> isEvaluate ev"
  by (cases ev) simp_all

lemma no_main_evaluate: "filter isEvaluate tr = [] \<Longrightarrow> filter isMainEvaluate tr = []"
  by (auto simp: filter_empty_conv dest: isMainEvaluate_isEvaluate)

lemma no_main_evaluate_in_page:
  "filter isMainEvaluate (snd (mainPageClick L t doc)) = []"
  "filter isMainEvaluate (snd (iframeClick L t doc)) = []"
  "filter isMainEvaluate (snd (popupClick L t doc)) = []"
  "filter isMainEvaluate (snd (mainPageFill L t v doc)) = []"
  "filter isMainEvaluate (snd (iframeFill L t v doc)) = []"
  "filter isMainEvaluate (snd (popupFill L t v doc)) = []"
  by (simp_all add: no_main_evaluate no_evaluate_in_page)

lemma clickPopupStep_passes:
  "length (filter isEvaluate (snd (clickPopupStep L popup t))) \<le> 1"
  "filter isMainEvaluate (snd (clickPopupStep L popup t)) = []"
  by (simp_all add: clickPopupStep_def step_defs no_evaluate_in_page no_main_evaluate_in_page
      split: option.splits fault.splits sum.splits)

lemma clickPopups_passes:
  "length (filter isEvaluate (snd (clickPopups L pages t))) \<le> length pages \<and>
   filter isMainEvaluate (snd (clickPopups L pages t)) = []"
proof (induction L pages t rule: clickPopups.induct)
  case (1 L target)
  show ?case by (simp add: ret_def)
next
  case (2 L rest target)
  then show ?case by simp
next
  case (3 L popup rest target)
  show ?case
  proof (cases "isClosed popup")
    case True
    with 3(1) show ?thesis by simp
  next
    case False
    from 3(2) [OF False, of False]
    have "length (filter isEvaluate (snd (clickPopups L rest target))) \<le> length rest \<and>
          filter isMainEvaluate (snd (clickPopups L rest target)) = []"
      by simp
    with False clickPopupStep_passes [of L popup target] show ?thesis
      by (auto simp: snd_andThen ret_def split: sum.splits)
  qed
qed

lemma clickSearch_passes:
  "length (filter isEvaluate (snd (clickSearch L pg pages t))) \<le> 2 + length pages"
  "length (filter isMainEvaluate (snd (clickSearch L pg pages t))) \<le> 1"
  using clickPopups_passes [of L pages t]
  by (auto simp: clickSearch_def step_defs no_evaluate_in_page no_main_evaluate_in_page
      split: option.splits fault.splits sum.splits)

lemma clickWithRetry_passes:
  "scanPasses (snd (clickWithRetry g t m)) \<le> 2 + length (allPages g)"
  "chainAttempts (snd (clickWithRetry g t m)) \<le> 1"
  using clickSearch_passes [of "toLowerCase g" _ "allPages g" t]
  by (auto simp: clickWithRetry_def scanPasses_def chainAttempts_def
      fst_andThen snd_andThen fst_tryCatch snd_tryCatch log_def ret_def
      split: option.splits sum.splits)

lemma fillPopupStep_passes:
  "length (filter isEvaluate (snd (fillPopupStep L popup t v))) \<le> 1"
  "filter isMainEvaluate (snd (fillPopupStep L popup t v)) = []"
  by (simp_all add: fillPopupStep_def step_defs no_evaluate_in_page no_main_evaluate_in_page
      split: option.splits fault.splits sum.splits)

lemma fillPopups_passes:
  "length (filter isEvaluate (snd (fillPopups L pages t v))) \<le> length pages \<and>
   filter isMainEvaluate (snd (fillPopups L pages t v)) = []"
proof (induction L pages t v rule: fillPopups.induct)
  case (1 L target val)
  show ?case by (simp add: ret_def)
next
  case (2 L rest target val)
  then show ?case by simp
next
  case (3 L popup rest target val)
  show ?case
  proof (cases "isClosed popup")
    case True
    with 3(1) show ?thesis by simp
  next
    case False
    from 3(2) [OF False, of False]
    have "length (filter isEvaluate (snd (fillPopups L rest target val))) \<le> length rest \<and>
          filter isMainEvaluate (snd (fillPopups L rest target val)) = []"
      by simp
    with False fillPopupStep_passes [of L popup target val] show ?thesis
      by (auto simp: snd_andThen ret_def split: sum.splits)
  qed
qed

lemma fillSearch_passes:
  "length (filter isEvaluate (snd (fillSearch L pg pages t v))) \<le> 2 + length pages"
  "length (filter isMainEvaluate (snd (fillSearch L pg pages t v))) \<le> 1"
  using fillPopups_passes [of L pages t v]
  by (auto simp: fillSearch_def step_defs no_evaluate_in_page no_main_evaluate_in_page
      split: option.splits fault.splits sum.splits)

lemma fillWithRetry_passes:
  "scanPasses (snd (fillWithRetry g t v m)) \<le> 2 + length (allPages g)"
  "chainAttempts (snd (fillWithRetry g t v m)) \<le> 1"
  using fillSearch_passes [of "toLowerCase g" _ "allPages g" t v]
  by (auto simp: fillWithRetry_def scanPasses_def chainAttempts_def
      fst_andThen snd_andThen fst_tryCatch snd_tryCatch log_def ret_def
      split: option.splits sum.splits)

lemma self_in_elementsOf: "el \<in> set (elementsOf el)"
  by (cases el) simp

lemma frame_in_elementsOf:
  "contentFrame el = SameOrigin d \<Longrightarrow> x \<in> set (documentElements d) \<Longrightarrow> x \<in> set (elementsOf el)"
  by (cases el) (auto simp: documentElements_def)

lemma document_subset: "el \<in> set doc \<Longrightarrow> el \<in> set (documentElements doc)"
  by (auto simp: documentElements_def intro: self_in_elementsOf)

lemma frameDocuments_D:
  "d \<in> set (frameDocuments ifs) \<Longrightarrow> \<exists>iframe \<in> set ifs. contentFrame iframe = SameOrigin d"
  by (induction ifs) (auto split: frame.splits)

lemma frameDocuments_I:
  "iframe \<in> set ifs \<Longrightarrow> contentFrame iframe = SameOrigin d \<Longrightarrow> d \<in> set (frameDocuments ifs)"
  by (induction ifs) (auto split: frame.splits)

lemma framed_subset:
  assumes "d \<in> set (frameDocuments (querySelectorAll sel doc))" and "el \<in> set d"
  shows "el \<in> set (documentElements doc)"
proof -
  from frameDocuments_D [OF assms(1)]
  obtain iframe where i: "iframe \<in> set doc" "contentFrame iframe = SameOrigin d"
    by (auto simp: querySelectorAll_def)
  from frame_in_elementsOf [OF i(2) document_subset [OF assms(2)]] i(1)
  show ?thesis by (auto simp: documentElements_def)
qed

lemma clickMatch_spec: "clickMatch L (L t) el \<Longrightarrow> spec_labelMatch L t el"
  by (auto simp: clickMatch_def spec_labelMatch_def Let_def)

lemma fillMatch_spec: "fillMatch L (L t) el \<Longrightarrow> spec_labelMatch L t el"
  by (auto simp: fillMatch_def spec_labelMatch_def Let_def)

lemma clickMatchPopup_clickMatch: "clickMatchPopup L sl el \<Longrightarrow> clickMatch L sl el"
  by (auto simp: clickMatchPopup_def clickMatch_def Let_def)

lemma fillMatchPopup_fillMatch: "fillMatchPopup L sl el \<Longrightarrow> fillMatch L sl el"
  by (auto simp: fillMatchPopup_def fillMatch_def Let_def)

lemma in_page_no_match:
  assumes "\<forall>el \<in> set (documentElements doc). \<not> spec_labelMatch L t el"
  shows "mainPageClick L t doc = (Inr False, [])" "iframeClick L t doc = (Inr False, [])"
    "popupClick L t doc = (Inr False, [])" "mainPageFill L t v doc = (Inr False, [])"
    "iframeFill L t v doc = (Inr False, [])" "popupFill L t v doc = (Inr False, [])"
proof -
  have m: "\<And>el. el \<in> set doc \<Longrightarrow> \<not> clickMatch L (L t) el \<and> \<not> fillMatch L (L t) el"
    using assms document_subset clickMatch_spec fillMatch_spec by blast
  have f: "\<And>el d. d \<in> set (frameDocuments (querySelectorAll isIframe doc)) \<Longrightarrow> el \<in> set d \<Longrightarrow>
             \<not> clickMatch L (L t) el \<and> \<not> fillMatch L (L t) el"
    using assms framed_subset clickMatch_spec fillMatch_spec by blast
  have "find (\<lambda>el. clickMatch L (L t) el \<and> spec_visible el) (filter isClickable doc) = None"
    by (rule find_none) (use m in auto)
  then show "mainPageClick L t doc = (Inr False, [])"
    by (simp add: mainPageClick_def clickMainLoop_find querySelectorAll_def)
  have "find (clickMatchPopup L (L t)) (filter isClickable doc) = None"
    by (rule find_none) (use m in \<open>auto dest: clickMatchPopup_clickMatch\<close>)
  then show "popupClick L t doc = (Inr False, [])"
    by (simp add: popupClick_def clickPopupLoop_find querySelectorAll_def)
  have "find (\<lambda>el. fillMatch L (L t) el \<and> spec_visible el \<and> spec_enabled el)
          (filter isInput doc) = None"
    by (rule find_none) (use m in auto)
  then show "mainPageFill L t v doc = (Inr False, [])"
    by (simp add: mainPageFill_def fillMainLoop_find querySelectorAll_def)
  have "find (fillMatchPopup L (L t)) (filter isInput doc) = None"
    by (rule find_none) (use m in \<open>auto dest: fillMatchPopup_fillMatch\<close>)
  then show "popupFill L t v doc = (Inr False, [])"
    by (simp add: popupFill_def fillPopupLoop_find querySelectorAll_def)
  have "find (\<lambda>el. clickMatch L (L t) el \<and> 0 < rectWidth el \<and> 0 < rectHeight el)
          (concat (map (querySelectorAll isClickable)
             (frameDocuments (querySelectorAll isIframe doc)))) = None"
    by (rule find_none) (use f in \<open>auto simp: querySelectorAll_def\<close>)
  then show "iframeClick L t doc = (Inr False, [])"
    by (simp add: iframeClick_def clickIframesLoop_find)
  have "\<And>d. d \<in> set (frameDocuments (querySelectorAll isIframe doc)) \<Longrightarrow>
          fillFrameLoop L (L t) v (querySelectorAll isInput d) = (Inr False, [])"
  proof -
    fix d assume "d \<in> set (frameDocuments (querySelectorAll isIframe doc))"
    then have "find (fillMatch L (L t)) (querySelectorAll isInput d) = None"
      by (intro find_none) (use f in \<open>auto simp: querySelectorAll_def\<close>)
    then show "fillFrameLoop L (L t) v (querySelectorAll isInput d) = (Inr False, [])"
      by (simp add: fillFrameLoop_find)
  qed
  then have "find (\<lambda>d. fst (fillFrameLoop L (L t) v (querySelectorAll isInput d)) = Inr True)
          (frameDocuments (querySelectorAll isIframe doc)) = None"
    by (intro find_none) simp
  then show "iframeFill L t v doc = (Inr False, [])"
    by (simp add: iframeFill_def fillIframesLoop_find)
qed

lemma clickPopupStep_no_match:
  assumes "popupClick L t (document popup) = (Inr False, [])"
  shows "fst (clickPopupStep L popup t) = Inr False"
  using assms
  by (auto simp: clickPopupStep_def step_defs split: option.splits fault.splits sum.splits)

lemma fillPopupStep_no_match:
  assumes "popupFill L t v (document popup) = (Inr False, [])"
  shows "fst (fillPopupStep L popup t v) = Inr False"
  using assms
  by (auto simp: fillPopupStep_def step_defs split: option.splits fault.splits sum.splits)

lemma clickPopups_no_match:
  assumes "\<forall>el \<in> set (concat (map pageElements pages)). \<not> spec_labelMatch L t el"
  shows "fst (clickPopups L pages t) = Inr False"
  using assms
proof (induction L pages t rule: clickPopups.induct)
  case (1 L target)
  show ?case by (simp add: ret_def)
next
  case (2 L rest target)
  then show ?case by (simp add: pageElements_def)
next
  case (3 L popup rest target)
  show ?case
  proof (cases "isClosed popup")
    case True
    with 3(1) 3(3) show ?thesis by (simp add: pageElements_def)
  next
    case False
    from 3(3) False
    have here: "\<forall>el \<in> set (documentElements (document popup)). \<not> spec_labelMatch L target el"
      by (simp add: pageElements_def)
    from 3(3) have "fst (clickPopups L rest target) = Inr False"
      using 3(2) [OF False, of False] by simp
    with False clickPopupStep_no_match [OF in_page_no_match(3) [OF here]] show ?thesis
      by (simp add: fst_andThen)
  qed
qed

lemma fillPopups_no_match:
  assumes "\<forall>el \<in> set (concat (map pageElements pages)). \<not> spec_labelMatch L t el"
  shows "fst (fillPopups L pages t v) = Inr False"
  using assms
proof (induction L pages t v rule: fillPopups.induct)
  case (1 L target val)
  show ?case by (simp add: ret_def)
next
  case (2 L rest target val)
  then show ?case by (simp add: pageElements_def)
next
  case (3 L popup rest target val)
  show ?case
  proof (cases "isClosed popup")
    case True
    with 3(1) 3(3) show ?thesis by (simp add: pageElements_def)
  next
    case False
    from 3(3) False
    have here: "\<forall>el \<in> set (documentElements (document popup)). \<not> spec_labelMatch L target el"
      by (simp add: pageElements_def)
    from 3(3) have "fst (fillPopups L rest target val) = Inr False"
      using 3(2) [OF False, of False] by simp
    with False fillPopupStep_no_match [OF in_page_no_match(6) [OF here]] show ?thesis
      by (simp add: fst_andThen)
  qed
qed

lemma clickSearch_no_match:
  assumes "\<forall>el \<in> set (documentElements (document pg)). \<not> spec_labelMatch L t el"
    and "\<forall>el \<in> set (concat (map pageElements pages)). \<not> spec_labelMatch L t el"
  shows "fst (clickSearch L pg pages t) \<noteq> Inr True"
  using in_page_no_match(1,2) [OF assms(1)] clickPopups_no_match [OF assms(2)]
  by (auto simp: clickSearch_def step_defs split: option.splits fault.splits sum.splits)

lemma fillSearch_no_match:
  assumes "\<forall>el \<in> set (documentElements (document pg)). \<not> spec_labelMatch L t el"
    and "\<forall>el \<in> set (concat (map pageElements pages)). \<not> spec_labelMatch L t el"
  shows "fst (fillSearch L pg pages t v) \<noteq> Inr True"
  using in_page_no_match(4,5) [OF assms(1)] fillPopups_no_match [OF assms(2)]
  by (auto simp: fillSearch_def step_defs split: option.splits fault.splits sum.splits)

lemma clickWithRetry_no_match:
  assumes "\<forall>el \<in> set (contextElements g). \<not> spec_labelMatch (toLowerCase g) t el"
  shows "fst (clickWithRetry g t m) = Inr False"
proof (cases "state_page g")
  case None
  then show ?thesis by (simp add: clickWithRetry_def ret_def)
next
  case (Some pg)
  show ?thesis
  proof (cases "isClosed pg")
    case True
    with Some show ?thesis by (simp add: clickWithRetry_def ret_def)
  next
    case False
    with assms Some have "fst (clickSearch (toLowerCase g) pg (allPages g) t) \<noteq> Inr True"
      by (intro clickSearch_no_match) (auto simp: contextElements_def pageElements_def)
    with Some False show ?thesis
      by (cases "fst (clickSearch (toLowerCase g) pg (allPages g) t)")
         (auto simp: clickWithRetry_def fst_andThen fst_tryCatch log_def ret_def)
  qed
qed

lemma fillWithRetry_no_match:
  assumes "\<forall>el \<in> set (contextElements g). \<not> spec_labelMatch (toLowerCase g) t el"
  shows "fst (fillWithRetry g t v m) = Inr False"
proof (cases "state_page g")
  case None
  then show ?thesis by (simp add: fillWithRetry_def ret_def)
next
  case (Some pg)
  show ?thesis
  proof (cases "isClosed pg")
    case True
    with Some show ?thesis by (simp add: fillWithRetry_def ret_def)
  next
    case False
    with assms Some have "fst (fillSearch (toLowerCase g) pg (allPages g) t v) \<noteq> Inr True"
      by (intro fillSearch_no_match) (auto simp: contextElements_def pageElements_def)
    with Some False show ?thesis
      by (cases "fst (fillSearch (toLowerCase g) pg (allPages g) t v)")
         (auto simp: fillWithRetry_def fst_andThen fst_tryCatch log_def ret_def)
  qed
qed

section \<open>Assignments and their events\<close>

text \<open>
  Every assignment in a trace is followed at once by its two events, a fill that
  returns true has assigned, and the first event of a search is the evaluation of the
  main-page scan.
\<close>

lemma notified_append:
  assumes "assignmentsNotified a" and "assignmentsNotified b"
  shows "assignmentsNotified (a @ b)"
  unfolding assignmentsNotified_def
proof (intro allI impI)
  fix el v assume "SetValue el v \<in> set (a @ b)"
  then consider "SetValue el v \<in> set a" | "SetValue el v \<in> set b" by auto
  then show "\<exists>before after. a @ b =
      before @ [SetValue el v, DispatchEvent el ''input'', DispatchEvent el ''change''] @ after"
  proof cases
    case 1
    with assms(1) obtain p q where
      "a = p @ [SetValue el v, DispatchEvent el ''input'', DispatchEvent el ''change''] @ q"
      unfolding assignmentsNotified_def by blast
    then have "a @ b =
      p @ [SetValue el v, DispatchEvent el ''input'', DispatchEvent el ''change''] @ (q @ b)"
      by simp
    then show ?thesis by blast
  next
    case 2
    with assms(2) obtain p q where
      "b = p @ [SetValue el v, DispatchEvent el ''input'', DispatchEvent el ''change''] @ q"
      unfolding assignmentsNotified_def by blast
    then have "a @ b =
      (a @ p) @ [SetValue el v, DispatchEvent el ''input'', DispatchEvent el ''change''] @ q"
      by simp
    then show ?thesis by blast
  qed
qed

lemma notified_quiet: "list_all (\<lambda>ev. \<not> isSetValue ev) tr \<Longrightarrow> assignmentsNotified tr"
  by (auto simp: assignmentsNotified_def list_all_iff)

lemma notified_block:
  "assignmentsNotified [SetValue el v, DispatchEvent el ''input'', DispatchEvent el ''change'']"
  unfolding assignmentsNotified_def
proof (intro allI impI)
  fix el' v'
  assume "SetValue el' v' \<in>
    set [SetValue el v, DispatchEvent el ''input'', DispatchEvent el ''change'']"
  then have e: "el' = el" "v' = v" by auto
  have "[SetValue el v, DispatchEvent el ''input'', DispatchEvent el ''change''] =
        [] @ [SetValue el v, DispatchEvent el ''input'', DispatchEvent el ''change''] @ []"
    by simp
  then show "\<exists>before after.
     [SetValue el v, DispatchEvent el ''input'', DispatchEvent el ''change''] =
     before @ [SetValue el' v', DispatchEvent el' ''input'', DispatchEvent el' ''change'']
       @ after"
    unfolding e by blast
qed

lemma notified_in_page:
  "assignmentsNotified (snd (mainPageFill L t v doc))"
  "assignmentsNotified (snd (iframeFill L t v doc))"
  "assignmentsNotified (snd (popupFill L t v doc))"
proof -
  have a: "\<And>r. r = mainPageFill L t v doc \<or> r = iframeFill L t v doc \<or>
             r = popupFill L t v doc \<Longrightarrow> assignmentsNotified (snd r)"
  proof -
    fix r assume "r = mainPageFill L t v doc \<or> r = iframeFill L t v doc \<or>
             r = popupFill L t v doc"
    from fill_in_page_shape [OF this]
    consider "snd r = []" | el where "snd r = [ScrollIntoView el]"
      | el where "snd r = [SetValue el v, DispatchEvent el ''input'',
                           DispatchEvent el ''change'']"
      | el where "snd r = [ScrollIntoView el] @ [SetValue el v, DispatchEvent el ''input'',
                           DispatchEvent el ''change'']"
      by auto
    then show "assignmentsNotified (snd r)"
    proof cases
      case 1
      then show ?thesis by (simp add: notified_quiet)
    next
      case 2
      then show ?thesis by (simp add: notified_quiet)
    next
      case 3
      then show ?thesis by (simp add: notified_block)
    next
      case 4
      have "assignmentsNotified ([ScrollIntoView el] @ [SetValue el v,
              DispatchEvent el ''input'', DispatchEvent el ''change''])"
        by (intro notified_append notified_block notified_quiet) simp
      with 4 show ?thesis by simp
    qed
  qed
  show "assignmentsNotified (snd (mainPageFill L t v doc))"
    "assignmentsNotified (snd (iframeFill L t v doc))"
    "assignmentsNotified (snd (popupFill L t v doc))"
    by (rule a, simp)+
qed

lemma notified_andThen:
  assumes "assignmentsNotified (snd m)" and "\<And>v. assignmentsNotified (snd (f v))"
  shows "assignmentsNotified (snd (andThen m f))"
  using assms by (cases "fst m") (simp_all add: snd_andThen notified_append)

lemma notified_tryCatch:
  assumes "assignmentsNotified (snd m)" and "\<And>e. assignmentsNotified (snd (h e))"
  shows "assignmentsNotified (snd (tryCatch m h))"
  using assms by (cases "fst m") (simp_all add: snd_tryCatch notified_append)

lemma notified_evaluate:
  assumes "assignmentsNotified (snd (f (document pg)))"
  shows "assignmentsNotified (snd (evaluate pg ps f))"
proof -
  have "assignmentsNotified ([Evaluate ps] @ snd (f (document pg)))"
    by (intro notified_append notified_quiet assms) simp
  then show ?thesis
    by (simp add: evaluate_def notified_quiet split: option.splits fault.splits)
qed

lemma notified_simple:
  "assignmentsNotified (snd (log l))" "assignmentsNotified (snd (waitForTimeout pg ms))"
  "assignmentsNotified (snd (ret x))"
  by (simp_all add: log_def waitForTimeout_def ret_def notified_quiet split: option.splits)

lemmas notified_steps =
  notified_andThen notified_tryCatch notified_evaluate notified_simple

lemma fillPopups_notified: "assignmentsNotified (snd (fillPopups L pages t v))"
proof (induction pages)
  case Nil
  show ?case by (simp add: notified_simple)
next
  case (Cons p pages)
  have s: "\<And>popup. assignmentsNotified (snd (fillPopupStep L popup t v))"
    unfolding fillPopupStep_def
    by (intro notified_steps notified_in_page) (simp_all add: notified_steps)
  show ?case
  proof (cases p)
    case None
    with Cons show ?thesis by simp
  next
    case (Some popup)
    with Cons s [of popup] show ?thesis
      by (auto intro!: notified_andThen simp: notified_simple)
  qed
qed

lemma fillSearch_notified: "assignmentsNotified (snd (fillSearch L pg pages t v))"
  unfolding fillSearch_def
  by (intro notified_steps notified_in_page)
     (auto intro!: notified_steps notified_in_page fillPopups_notified)

lemma fillWithRetry_notified: "assignmentsNotified (snd (fillWithRetry g t v m))"
  unfolding fillWithRetry_def
  by (auto intro!: notified_steps fillSearch_notified split: option.splits)

lemma in_page_true_assigned:
  "fst (mainPageFill L t v doc) = Inr True \<Longrightarrow>
     \<exists>el. SetValue el v \<in> set (snd (mainPageFill L t v doc))"
  "fst (iframeFill L t v doc) = Inr True \<Longrightarrow>
     \<exists>el. SetValue el v \<in> set (snd (iframeFill L t v doc))"
  "fst (popupFill L t v doc) = Inr True \<Longrightarrow>
     \<exists>el. SetValue el v \<in> set (snd (popupFill L t v doc))"
  using fill_in_page_shape [of "mainPageFill L t v doc" L t v doc]
    fill_in_page_shape [of "iframeFill L t v doc" L t v doc]
    fill_in_page_shape [of "popupFill L t v doc" L t v doc]
  by auto

lemma fillPopupStep_true_assigned:
  assumes "fst (fillPopupStep L popup t v) = Inr True"
  shows "\<exists>el. SetValue el v \<in> set (snd (fillPopupStep L popup t v))"
proof -
  from assms have "fst (popupFill L t v (document popup)) = Inr True"
    by (auto simp: fillPopupStep_def step_defs split: option.splits fault.splits sum.splits
        if_splits)
  from in_page_true_assigned(3) [OF this]
  obtain el where "SetValue el v \<in> set (snd (popupFill L t v (document popup)))" by auto
  with assms show ?thesis
    by (auto simp: fillPopupStep_def step_defs split: option.splits fault.splits sum.splits
        if_splits)
qed

lemma fillPopups_true_assigned:
  "fst (fillPopups L pages t v) = Inr True \<Longrightarrow>
   \<exists>el. SetValue el v \<in> set (snd (fillPopups L pages t v))"
proof (induction pages)
  case Nil
  then show ?case by (simp add: ret_def)
next
  case (Cons p pages)
  show ?case
  proof (cases p)
    case None
    with Cons show ?thesis by simp
  next
    case (Some popup)
    show ?thesis
    proof (cases "isClosed popup")
      case True
      with Some Cons show ?thesis by simp
    next
      case False
      show ?thesis
      proof (cases "fst (fillPopupStep L popup t v) = Inr True")
        case True
        from fillPopupStep_true_assigned [OF True] True Some False show ?thesis
          by (auto simp: snd_andThen ret_def)
      next
        case no: False
        with Cons.prems Some False have "fst (fillPopups L pages t v) = Inr True"
          by (auto simp: fst_andThen ret_def split: sum.splits if_splits)
        from Cons.IH [OF this] Cons.prems Some False no show ?thesis
          by (auto simp: fst_andThen snd_andThen ret_def split: sum.splits if_splits)
      qed
    qed
  qed
qed

lemma fillSearch_true_assigned:
  assumes "fst (fillSearch L pg pages t v) = Inr True"
  shows "\<exists>el. SetValue el v \<in> set (snd (fillSearch L pg pages t v))"
proof (cases "fst (evaluate pg MainPass (mainPageFill L t v)) = Inr True")
  case True
  then have "fst (mainPageFill L t v (document pg)) = Inr True"
    by (auto simp: evaluate_def split: option.splits fault.splits)
  from in_page_true_assigned(1) [OF this]
  obtain el where "SetValue el v \<in> set (snd (mainPageFill L t v (document pg)))" by auto
  with True have "SetValue el v \<in> set (snd (evaluate pg MainPass (mainPageFill L t v)))"
    by (auto simp: evaluate_def split: option.splits fault.splits)
  with True show ?thesis
    by (auto simp: fillSearch_def snd_andThen)
next
  case m: False
  show ?thesis
  proof (cases "fst (evaluate pg IframePass (iframeFill L t v)) = Inr True")
    case True
    then have "fst (iframeFill L t v (document pg)) = Inr True"
      by (auto simp: evaluate_def split: option.splits fault.splits)
    from in_page_true_assigned(2) [OF this]
    obtain el where "SetValue el v \<in> set (snd (iframeFill L t v (document pg)))" by auto
    with True have "SetValue el v \<in> set (snd (evaluate pg IframePass (iframeFill L t v)))"
      by (auto simp: evaluate_def split: option.splits fault.splits)
    with True m assms show ?thesis
      by (auto simp: fillSearch_def fst_andThen snd_andThen split: sum.splits if_splits)
  next
    case i: False
    with m assms have "fst (fillPopups L pages t v) = Inr True"
      by (auto simp: fillSearch_def fst_andThen log_def ret_def split: sum.splits if_splits)
    from fillPopups_true_assigned [OF this] m i assms show ?thesis
      by (auto simp: fillSearch_def fst_andThen snd_andThen log_def ret_def
          split: sum.splits if_splits)
  qed
qed

lemma fillWithRetry_true_assigned:
  assumes "fst (fillWithRetry g t v m) = Inr True"
  shows "\<exists>el. SetValue el v \<in> set (snd (fillWithRetry g t v m))"
proof (cases "state_page g")
  case None
  with assms show ?thesis by (simp add: fillWithRetry_def ret_def)
next
  case (Some pg)
  with assms have "fst (fillSearch (toLowerCase g) pg (allPages g) t v) = Inr True"
    by (auto simp: fillWithRetry_def step_defs split: sum.splits if_splits)
  from fillSearch_true_assigned [OF this] Some assms show ?thesis
    by (auto simp: fillWithRetry_def step_defs split: sum.splits if_splits)
qed

lemma first_pass_is_main:
  "\<exists>rest. snd (clickSearch L pg pages t) = Evaluate MainPass # rest"
  "\<exists>rest. snd (fillSearch L pg pages t v) = Evaluate MainPass # rest"
proof -
  show "\<exists>rest. snd (clickSearch L pg pages t) = Evaluate MainPass # rest"
    by (cases "fst (evaluate pg MainPass (mainPageClick L t))")
       (simp_all add: clickSearch_def snd_andThen evaluate_def split: option.splits fault.splits)
  show "\<exists>rest. snd (fillSearch L pg pages t v) = Evaluate MainPass # rest"
    by (cases "fst (evaluate pg MainPass (mainPageFill L t v))")
       (simp_all add: fillSearch_def snd_andThen evaluate_def split: option.splits fault.splits)
qed

lemma main_page_acts_on_visible:
  "Click el \<in> set (snd (mainPageClick L t doc)) \<Longrightarrow> spec_visible el"
  "SetValue el v' \<in> set (snd (mainPageFill L t v doc)) \<Longrightarrow> spec_visible el \<and> spec_enabled el"
  by (auto simp: mainPageClick_def clickMainLoop_find mainPageFill_def fillMainLoop_find
      assignValue_def split: option.splits if_splits dest!: find_SomeD)

section \<open>The first candidate, and lowercase forms\<close>







lemma fill_main_page_outcome:
  assumes "state_page g = Some pg" and "\<not> isClosed pg"
    and "evaluateFault pg MainPass = None" and "waitFault pg = None"
    and "querySelectorAll isInput (document pg) = pre @ el # post"
    and "\<forall>x \<in> set pre. \<not> (fillMatch (toLowerCase g) (toLowerCase g t) x \<and>
                            spec_visible x \<and> spec_enabled x)"
    and "fillMatch (toLowerCase g) (toLowerCase g t) el"
    and "spec_visible el" and "spec_enabled el"
  shows "fillWithRetry g t v m =
     (if valueSetterThrows el v
      then (Inr False, [Log (FillSearch t), Evaluate MainPass, ScrollIntoView el,
                        Log (FillError invalidStateError)])
      else (Inr True, [Log (FillSearch t), Evaluate MainPass, ScrollIntoView el,
                       SetValue el v, DispatchEvent el ''input'', DispatchEvent el ''change'',
                       Log FilledMainPage, WaitForTimeout 300]))"
proof -
  from assms(5-9)
  have "mainPageFill (toLowerCase g) t v (document pg) =
          (fst (assignValue el v), ScrollIntoView el # snd (assignValue el v))"
    by (simp add: mainPageFill_def fillMainLoop_find
        find_first [of pre "\<lambda>el. fillMatch (toLowerCase g) (toLowerCase g t) el \<and>
          spec_visible el \<and> spec_enabled el" el post])
  with assms(1-4) show ?thesis
    by (simp add: fillWithRetry_def fillSearch_def andThen_def tryCatch_def evaluate_def
        log_def ret_def waitForTimeout_def assignValue_def)
qed

lemma startsWith_refl: "startsWith s s"
  by (induction s) simp_all

lemma includesStr_refl: "includesStr s s"
  by (cases s) (simp_all add: startsWith_refl)

lemma startsWith_iff: "startsWith s t \<longleftrightarrow> (\<exists>r. s = t @ r)"
  by (induction s t rule: startsWith.induct) auto

lemma includesStr_iff: "includesStr s t \<longleftrightarrow> (\<exists>p r. s = p @ t @ r)"
proof (induction s)
  case Nil
  show ?case by auto
next
  case (Cons c cs)
  show ?case
  proof
    assume "includesStr (c # cs) t"
    then consider "startsWith (c # cs) t" | "includesStr cs t" by auto
    then show "\<exists>p r. c # cs = p @ t @ r"
    proof cases
      case 1
      then obtain r where "c # cs = t @ r" by (auto simp: startsWith_iff)
      then have "c # cs = [] @ t @ r" by simp
      then show ?thesis by blast
    next
      case 2
      with Cons obtain p r where "cs = p @ t @ r" by auto
      then have "c # cs = (c # p) @ t @ r" by simp
      then show ?thesis by blast
    qed
  next
    assume "\<exists>p r. c # cs = p @ t @ r"
    then obtain p r where e: "c # cs = p @ t @ r" by auto
    show "includesStr (c # cs) t"
    proof (cases p)
      case Nil
      with e have "startsWith (c # cs) t" by (auto simp: startsWith_iff)
      then show ?thesis by simp
    next
      case (Cons x p')
      with e have "cs = p' @ t @ r" by simp
      with Cons.IH have "includesStr cs t" by blast
      then show ?thesis by simp
    qed
  qed
qed

lemma sampleLower_no_sigma: "931 \<notin> set s \<Longrightarrow> sampleLower p s = map lowerUnit s"
  by (induction s arbitrary: p) auto

lemma sample_identifies_case:
  assumes "differsOnlyInCase a b" and "931 \<notin> set a" and "931 \<notin> set b"
  shows "sampleToLowerCase a = sampleToLowerCase b"
  using assms by (simp add: sampleToLowerCase_def sampleLower_no_sigma differsOnlyInCase_def)

lemma same_form_same_result:
  assumes e: "toLowerCase g t1 = toLowerCase g t2"
  shows "fst (clickWithRetry g t1 m) = fst (clickWithRetry g t2 m)"
    and "fst (fillWithRetry g t1 v m) = fst (fillWithRetry g t2 v m)"
proof -
  let ?L = "toLowerCase g"
  have pc: "popupClick ?L t1 = popupClick ?L t2" "popupFill ?L t1 v = popupFill ?L t2 v"
    by (simp_all add: fun_eq_iff popupClick_def popupFill_def e)
  have p: "\<And>pages. clickPopups ?L pages t1 = clickPopups ?L pages t2"
  proof -
    fix pages show "clickPopups ?L pages t1 = clickPopups ?L pages t2"
    proof (induction pages)
      case Nil
      show ?case by simp
    next
      case (Cons a pages)
      then show ?case by (cases a) (simp_all add: clickPopupStep_def pc cong: if_cong)
    qed
  qed
  have q: "\<And>pages. fillPopups ?L pages t1 v = fillPopups ?L pages t2 v"
  proof -
    fix pages show "fillPopups ?L pages t1 v = fillPopups ?L pages t2 v"
    proof (induction pages)
      case Nil
      show ?case by simp
    next
      case (Cons a pages)
      then show ?case by (cases a) (simp_all add: fillPopupStep_def pc cong: if_cong)
    qed
  qed
  have m1: "mainPageClick ?L t1 = mainPageClick ?L t2" "iframeClick ?L t1 = iframeClick ?L t2"
    "mainPageFill ?L t1 v = mainPageFill ?L t2 v" "iframeFill ?L t1 v = iframeFill ?L t2 v"
    by (simp_all add: fun_eq_iff mainPageClick_def iframeClick_def mainPageFill_def
        iframeFill_def e)
  have "\<And>pg pages. fst (clickSearch ?L pg pages t1) = fst (clickSearch ?L pg pages t2)"
    by (simp add: clickSearch_def m1 p fst_andThen log_def ret_def split: sum.splits)
  then show "fst (clickWithRetry g t1 m) = fst (clickWithRetry g t2 m)"
    by (simp add: clickWithRetry_def fst_andThen fst_tryCatch log_def ret_def
        split: option.splits sum.splits)
  have "\<And>pg pages. fst (fillSearch ?L pg pages t1 v) = fst (fillSearch ?L pg pages t2 v)"
    by (simp add: fillSearch_def m1 q fst_andThen log_def ret_def split: sum.splits)
  then show "fst (fillWithRetry g t1 v m) = fst (fillWithRetry g t2 v m)"
    by (simp add: fillWithRetry_def fst_andThen fst_tryCatch log_def ret_def
        split: option.splits sum.splits)
qed

lemma wait_fault_means_false:
  assumes "state_page g = Some pg" and "waitFault pg = Some e" and "allPages g = []"
  shows "fst (clickWithRetry g t m) = Inr False" and "fst (fillWithRetry g t v m) = Inr False"
  using assms
  by (auto simp: clickWithRetry_def clickSearch_def fillWithRetry_def fillSearch_def
      step_defs split: option.splits fault.splits sum.splits)

section \<open>Errors do not leave the call\<close>

text \<open>
  Claim C1, as amended. For every state of the globals, every target, value and
  \<open>maxRetries\<close>, \<open>clickWithRetry\<close> and \<open>fillWithRetry\<close> return a boolean. Whenever the
  handler of the outer \<open>try\<close> is reached (its error line is in the trace) the call
  returns false: so does a failing evaluation of the main-page pass, and so does a
  failing wait on the main page when there are no popups.
\<close>

theorem errors_never_propagate:
  "(\<exists>b. fst (clickWithRetry g target maxRetries) = Inr b) \<and>
   (\<exists>b. fst (fillWithRetry g target val maxRetries) = Inr b) \<and>
   (state_page g = Some pg \<and> evaluateFault pg MainPass = Some f \<longrightarrow>
      fst (clickWithRetry g target maxRetries) = Inr False \<and>
      fst (fillWithRetry g target val maxRetries) = Inr False) \<and>
   (state_page g = Some pg \<and> waitFault pg = Some e \<and> allPages g = [] \<longrightarrow>
      fst (clickWithRetry g target maxRetries) = Inr False \<and>
      fst (fillWithRetry g target val maxRetries) = Inr False) \<and>
   (Log (ClickError e) \<in> set (snd (clickWithRetry g target maxRetries)) \<longrightarrow>
      fst (clickWithRetry g target maxRetries) = Inr False) \<and>
   (Log (FillError e) \<in> set (snd (fillWithRetry g target val maxRetries)) \<longrightarrow>
      fst (fillWithRetry g target val maxRetries) = Inr False)"
proof (intro conjI impI)
  show "\<exists>b. fst (clickWithRetry g target maxRetries) = Inr b"
    "\<exists>b. fst (fillWithRetry g target val maxRetries) = Inr b"
    by (rule calls_return)+
next
  assume a: "state_page g = Some pg \<and> evaluateFault pg MainPass = Some f"
  then show "fst (clickWithRetry g target maxRetries) = Inr False"
    "fst (fillWithRetry g target val maxRetries) = Inr False"
    by (auto intro: main_fault_means_false)
next
  assume a: "state_page g = Some pg \<and> waitFault pg = Some e \<and> allPages g = []"
  then show "fst (clickWithRetry g target maxRetries) = Inr False"
    "fst (fillWithRetry g target val maxRetries) = Inr False"
    by (auto intro: wait_fault_means_false)
next
  assume "Log (ClickError e) \<in> set (snd (clickWithRetry g target maxRetries))"
  then show "fst (clickWithRetry g target maxRetries) = Inr False"
    by (rule error_line_means_false)
next
  assume "Log (FillError e) \<in> set (snd (fillWithRetry g target val maxRetries))"
  then show "fst (fillWithRetry g target val maxRetries) = Inr False"
    by (rule error_line_means_false)
qed

text \<open>On a page whose every evaluation throws, both calls return false and the error
  line is written; so does a fill whose assignment is refused on the main page.\<close>

theorem errors_never_propagate_witness:
  "state_page crashedMain = Some (crashingPage [submitButton, emailInput]) \<and>
   evaluateFault (crashingPage [submitButton, emailInput]) MainPass =
     Some (FaultBefore ''Execution context was destroyed'') \<and>
   fst (clickWithRetry crashedMain (str ''submit'') 1) = Inr False \<and>
   fst (fillWithRetry crashedMain (str ''email'') (str ''a'') 1) = Inr False \<and>
   Log (ClickError ''Execution context was destroyed'')
     \<in> set (snd (clickWithRetry crashedMain (str ''submit'') 1)) \<and>
   Log (FillError invalidStateError)
     \<in> set (snd (fillWithRetry (onlyMain [uploadInput]) (str ''upload'') (str ''x.txt'') 1)) \<and>
   fst (fillWithRetry (onlyMain [uploadInput]) (str ''upload'') (str ''x.txt'') 1) = Inr False"
proof -
  have s: "state_page crashedMain = Some (crashingPage [submitButton, emailInput]) \<and>
           evaluateFault (crashingPage [submitButton, emailInput]) MainPass =
             Some (FaultBefore ''Execution context was destroyed'')"
    by (simp add: crashedMain_def withPages_def crashingPage_def)
  have l: "Log (ClickError ''Execution context was destroyed'')
             \<in> set (snd (clickWithRetry crashedMain (str ''submit'') 1))"
    by code_simp
  have u: "Log (FillError invalidStateError)
     \<in> set (snd (fillWithRetry (onlyMain [uploadInput]) (str ''upload'') (str ''x.txt'') 1))"
    by code_simp
  from errors_never_propagate [where g = crashedMain and target = "str ''submit''"
      and maxRetries = 1 and val = "str ''a''"
      and pg = "crashingPage [submitButton, emailInput]"
      and f = "FaultBefore ''Execution context was destroyed''"
      and e = "''Execution context was destroyed''"] s l
  have c: "fst (clickWithRetry crashedMain (str ''submit'') 1) = Inr False"
    by simp
  from errors_never_propagate [where g = crashedMain and target = "str ''email''"
      and maxRetries = 1 and val = "str ''a''"
      and pg = "crashingPage [submitButton, emailInput]"
      and f = "FaultBefore ''Execution context was destroyed''"] s
  have f: "fst (fillWithRetry crashedMain (str ''email'') (str ''a'') 1) = Inr False"
    by simp
  from errors_never_propagate [where g = "onlyMain [uploadInput]"
      and target = "str ''upload''" and maxRetries = 1 and val = "str ''x.txt''"
      and e = invalidStateError] u
  have "fst (fillWithRetry (onlyMain [uploadInput]) (str ''upload'') (str ''x.txt'') 1)
          = Inr False"
    by simp
  with s l u c f show ?thesis by simp
qed

text \<open>
  Claim C1 as stated ends every error path in a false return. The evaluation in the
  first popup throws, the inner \<open>try\<close> drops the error, and the second popup is
  searched: the call returns true.
\<close>

theorem popup_error_then_true_counterexample:
  "evaluateFault (crashingPage [submitButton]) PopupPass =
     Some (FaultBefore ''Execution context was destroyed'') \<and>
   clickWithRetry crashedThenSubmit (str ''submit'') 1 =
     (Inr True, [Log (ClickSearch (str ''submit'')), Evaluate MainPass, Evaluate IframePass,
                 Evaluate PopupPass, Evaluate PopupPass, ScrollIntoView submitButton,
                 Click submitButton, Log ClickedPopup, WaitForTimeout 500])"
  by code_simp

section \<open>No match: false after one sweep\<close>

text \<open>
  Claim C2, as amended. When no element of any context matches the target, both calls
  return false; and on every call, whatever \<open>maxRetries\<close> is, the chain is run at most
  once and the number of scan passes is at most two plus the length of \<open>allPages\<close>.
\<close>

theorem no_match_returns_false:
  assumes "\<forall>el \<in> set (contextElements g). \<not> spec_labelMatch (toLowerCase g) target el"
  shows "fst (clickWithRetry g target maxRetries) = Inr False \<and>
         fst (fillWithRetry g target val maxRetries) = Inr False \<and>
         chainAttempts (snd (clickWithRetry g target maxRetries)) \<le> 1 \<and>
         chainAttempts (snd (fillWithRetry g target val maxRetries)) \<le> 1 \<and>
         scanPasses (snd (clickWithRetry g target maxRetries)) \<le> 2 + length (allPages g) \<and>
         scanPasses (snd (fillWithRetry g target val maxRetries)) \<le> 2 + length (allPages g)"
  using clickWithRetry_no_match [OF assms] fillWithRetry_no_match [OF assms]
    clickWithRetry_passes fillWithRetry_passes
  by simp

theorem no_match_returns_false_witness:
  "fst (clickWithRetry (onlyMain [submitButton]) (str ''Nonexistent Field'') 1) = Inr False \<and>
   fst (fillWithRetry (onlyMain [submitButton]) (str ''Nonexistent Field'') (str ''x'') 1)
     = Inr False \<and>
   chainAttempts (snd (clickWithRetry (onlyMain [submitButton]) (str ''Nonexistent Field'') 1))
     \<le> 1 \<and>
   scanPasses (snd (clickWithRetry (onlyMain [submitButton]) (str ''Nonexistent Field'') 1))
     \<le> 2"
proof -
  have h: "\<forall>el \<in> set (contextElements (onlyMain [submitButton])).
             \<not> spec_labelMatch (toLowerCase (onlyMain [submitButton]))
                 (str ''Nonexistent Field'') el"
    by code_simp
  have a: "allPages (onlyMain [submitButton]) = []"
    by (simp add: onlyMain_def withPages_def)
  from no_match_returns_false [OF h, of 1 "str ''x''"] a show ?thesis
    by simp
qed

text \<open>
  Claim C2 as stated bounds the passes of the chain by \<open>maxRetries\<close>. With
  \<open>maxRetries = 0\<close> and an open page on which nothing matches, the chain is still run
  once.
\<close>

theorem retries_not_bounded_by_maxRetries_counterexample:
  "contextElements (onlyMain [submitButton]) = [submitButton] \<and>
   \<not> spec_labelMatch sampleToLowerCase (str ''Nonexistent Field'') submitButton \<and>
   \<not> (int (chainAttempts (snd (clickWithRetry (onlyMain [submitButton])
          (str ''Nonexistent Field'') 0))) \<le> 0) \<and>
   \<not> (int (chainAttempts (snd (fillWithRetry (onlyMain [submitButton])
          (str ''Nonexistent Field'') (str ''x'') 0))) \<le> 0)"
  by code_simp

section \<open>Nested iframes\<close>

text \<open>
  Claim C3 at a button inside an iframe inside an iframe of the main document, both
  readable: the button is an element of the contexts, clickable, visible and matching,
  and \<open>clickWithRetry\<close> returns false after the main-page pass and the pass over the
  iframes of the main document. One level down the same button is clicked.
\<close>

theorem nested_iframe_not_searched:
  "submitButton \<in> set (contextElements (onlyMain [iframeOf [iframeOf [submitButton]]])) \<and>
   isClickable submitButton \<and> spec_visible submitButton \<and>
   clickMatch sampleToLowerCase (sampleToLowerCase (str ''Submit'')) submitButton \<and>
   clickWithRetry (onlyMain [iframeOf [iframeOf [submitButton]]]) (str ''Submit'') 1 =
     (Inr False, [Log (ClickSearch (str ''Submit'')), Evaluate MainPass, Evaluate IframePass,
                  Log (ClickNotFound (str ''Submit''))]) \<and>
   clickWithRetry (onlyMain [iframeOf [submitButton]]) (str ''Submit'') 1 =
     (Inr True, [Log (ClickSearch (str ''Submit'')), Evaluate MainPass, Evaluate IframePass,
                 ScrollIntoView submitButton, Click submitButton, Log ClickedIframe,
                 WaitForTimeout 500])"
  by code_simp

section \<open>Dropdowns\<close>

text \<open>
  Claim C4, as amended. A fill makes no dropdown classification. No event of a fill is
  a click; every assignment is of the requested value, to an input or textarea that
  matched the target, and is followed at once by the input and the change event; a fill
  that returns true has made such an assignment. On the main page the first matching,
  visible and enabled input or textarea, whatever its role, class or data attributes,
  is scrolled to and assigned directly; when its setter refuses the value (a file input
  and a non-empty value) the error is logged and the call returns false.
\<close>

theorem fill_assigns_directly:
  "(ev \<in> set (snd (fillWithRetry g target val maxRetries)) \<longrightarrow>
      (\<forall>x. ev \<noteq> Click x) \<and>
      (\<forall>x v. ev = SetValue x v \<longrightarrow>
         isInput x \<and> fillMatch (toLowerCase g) (toLowerCase g target) x \<and> v = val)) \<and>
   (SetValue el v \<in> set (snd (fillWithRetry g target val maxRetries)) \<longrightarrow>
      (\<exists>before after. snd (fillWithRetry g target val maxRetries) =
         before @ [SetValue el v, DispatchEvent el ''input'', DispatchEvent el ''change'']
           @ after)) \<and>
   (fst (fillWithRetry g target val maxRetries) = Inr True \<longrightarrow>
      (\<exists>x. SetValue x val \<in> set (snd (fillWithRetry g target val maxRetries)))) \<and>
   (state_page g = Some pg \<and> \<not> isClosed pg \<and>
    evaluateFault pg MainPass = None \<and> waitFault pg = None \<and>
    querySelectorAll isInput (document pg) = pre @ el # post \<and>
    (\<forall>x \<in> set pre. \<not> (fillMatch (toLowerCase g) (toLowerCase g target) x \<and>
                         spec_visible x \<and> spec_enabled x)) \<and>
    fillMatch (toLowerCase g) (toLowerCase g target) el \<and> spec_visible el \<and> spec_enabled el
    \<longrightarrow>
      fillWithRetry g target val maxRetries =
        (if valueSetterThrows el val
         then (Inr False, [Log (FillSearch target), Evaluate MainPass, ScrollIntoView el,
                           Log (FillError invalidStateError)])
         else (Inr True, [Log (FillSearch target), Evaluate MainPass, ScrollIntoView el,
                          SetValue el val, DispatchEvent el ''input'',
                          DispatchEvent el ''change'', Log FilledMainPage,
                          WaitForTimeout 300])))"
proof (intro conjI impI)
  assume "ev \<in> set (snd (fillWithRetry g target val maxRetries))"
  with fillWithRetry_events [of g target val maxRetries]
  have "fillEvent (toLowerCase g) (toLowerCase g target) val ev"
    by (auto simp: list_all_iff)
  then show "\<forall>x. ev \<noteq> Click x"
    "\<forall>x v. ev = SetValue x v \<longrightarrow>
       isInput x \<and> fillMatch (toLowerCase g) (toLowerCase g target) x \<and> v = val"
    by (cases ev; simp)+
next
  assume "SetValue el v \<in> set (snd (fillWithRetry g target val maxRetries))"
  with fillWithRetry_notified [of g target val maxRetries]
  show "\<exists>before after. snd (fillWithRetry g target val maxRetries) =
         before @ [SetValue el v, DispatchEvent el ''input'', DispatchEvent el ''change'']
           @ after"
    unfolding assignmentsNotified_def by blast
next
  assume "fst (fillWithRetry g target val maxRetries) = Inr True"
  then show "\<exists>x. SetValue x val \<in> set (snd (fillWithRetry g target val maxRetries))"
    by (rule fillWithRetry_true_assigned)
next
  assume "state_page g = Some pg \<and> \<not> isClosed pg \<and>
    evaluateFault pg MainPass = None \<and> waitFault pg = None \<and>
    querySelectorAll isInput (document pg) = pre @ el # post \<and>
    (\<forall>x \<in> set pre. \<not> (fillMatch (toLowerCase g) (toLowerCase g target) x \<and>
                         spec_visible x \<and> spec_enabled x)) \<and>
    fillMatch (toLowerCase g) (toLowerCase g target) el \<and> spec_visible el \<and> spec_enabled el"
  then show "fillWithRetry g target val maxRetries =
        (if valueSetterThrows el val
         then (Inr False, [Log (FillSearch target), Evaluate MainPass, ScrollIntoView el,
                           Log (FillError invalidStateError)])
         else (Inr True, [Log (FillSearch target), Evaluate MainPass, ScrollIntoView el,
                          SetValue el val, DispatchEvent el ''input'',
                          DispatchEvent el ''change'', Log FilledMainPage,
                          WaitForTimeout 300]))"
    by (intro fill_main_page_outcome [of g pg pre el post]) simp_all
qed

theorem fill_assigns_directly_witness:
  "spec_isDropdown stateCombobox \<and>
   querySelectorAll isInput [countrySelect, canadaOption, stateCombobox] = [stateCombobox] \<and>
   fillWithRetry countryForm (str ''State'') (str ''California'') 1 =
     (Inr True, [Log (FillSearch (str ''State'')), Evaluate MainPass,
                 ScrollIntoView stateCombobox, SetValue stateCombobox (str ''California''),
                 DispatchEvent stateCombobox ''input'', DispatchEvent stateCombobox ''change'',
                 Log FilledMainPage, WaitForTimeout 300]) \<and>
   fillWithRetry (onlyMain [uploadInput]) (str ''upload'') (str ''x.txt'') 1 =
     (Inr False, [Log (FillSearch (str ''upload'')), Evaluate MainPass,
                  ScrollIntoView uploadInput, Log (FillError invalidStateError)])"
proof -
  have d: "spec_isDropdown stateCombobox"
    by code_simp
  have q: "querySelectorAll isInput [countrySelect, canadaOption, stateCombobox]
             = [] @ stateCombobox # []"
    "querySelectorAll isInput [uploadInput] = [] @ uploadInput # []"
    by code_simp+
  have g: "state_page countryForm = Some (openPage [countrySelect, canadaOption, stateCombobox])"
    "toLowerCase countryForm = sampleToLowerCase"
    "state_page (onlyMain [uploadInput]) = Some (openPage [uploadInput])"
    "toLowerCase (onlyMain [uploadInput]) = sampleToLowerCase"
    by (simp_all add: countryForm_def onlyMain_def withPages_def)
  have p: "\<And>doc. \<not> isClosed (openPage doc) \<and> evaluateFault (openPage doc) MainPass = None \<and>
             waitFault (openPage doc) = None \<and> document (openPage doc) = doc"
    by (simp add: openPage_def)
  have m: "fillMatch sampleToLowerCase (sampleToLowerCase (str ''State'')) stateCombobox \<and>
           spec_visible stateCombobox \<and> spec_enabled stateCombobox \<and>
           \<not> valueSetterThrows stateCombobox (str ''California'')"
    "fillMatch sampleToLowerCase (sampleToLowerCase (str ''upload'')) uploadInput \<and>
     spec_visible uploadInput \<and> spec_enabled uploadInput \<and>
     valueSetterThrows uploadInput (str ''x.txt'')"
    by code_simp+
  from fill_assigns_directly [where g = countryForm and target = "str ''State''"
      and val = "str ''California''" and maxRetries = 1
      and pg = "openPage [countrySelect, canadaOption, stateCombobox]"
      and pre = "[]" and el = stateCombobox and post = "[]"] q(1) g(1,2) p m(1)
  have a: "fillWithRetry countryForm (str ''State'') (str ''California'') 1 =
     (Inr True, [Log (FillSearch (str ''State'')), Evaluate MainPass,
                 ScrollIntoView stateCombobox, SetValue stateCombobox (str ''California''),
                 DispatchEvent stateCombobox ''input'', DispatchEvent stateCombobox ''change'',
                 Log FilledMainPage, WaitForTimeout 300])"
    by simp
  from fill_assigns_directly [where g = "onlyMain [uploadInput]" and target = "str ''upload''"
      and val = "str ''x.txt''" and maxRetries = 1
      and pg = "openPage [uploadInput]"
      and pre = "[]" and el = uploadInput and post = "[]"] q(2) g(3,4) p m(2)
  have b: "fillWithRetry (onlyMain [uploadInput]) (str ''upload'') (str ''x.txt'') 1 =
     (Inr False, [Log (FillSearch (str ''upload'')), Evaluate MainPass,
                  ScrollIntoView uploadInput, Log (FillError invalidStateError)])"
    by simp
  from d q(1) a b show ?thesis by simp
qed

text \<open>
  Claim C4 as stated routes a dropdown to an open-and-select protocol. A native select
  labelled Country, with an option Canada, is never a candidate: the fill returns false
  and assigns nothing. An input with role combobox is assigned the value directly,
  with no click.
\<close>

theorem dropdown_not_classified_counterexample:
  "spec_isDropdown countrySelect \<and>
   spec_labelMatch sampleToLowerCase (str ''Country'') countrySelect \<and>
   spec_visible countrySelect \<and> spec_enabled countrySelect \<and>
   textContent canadaOption = str ''Canada'' \<and>
   fillWithRetry countryForm (str ''Country'') (str ''Canada'') 1 =
     (Inr False, [Log (FillSearch (str ''Country'')), Evaluate MainPass, Evaluate IframePass,
                  Log (FillNotFound (str ''Country''))]) \<and>
   spec_isDropdown stateCombobox \<and>
   fillWithRetry countryForm (str ''State'') (str ''California'') 1 =
     (Inr True, [Log (FillSearch (str ''State'')), Evaluate MainPass,
                 ScrollIntoView stateCombobox, SetValue stateCombobox (str ''California''),
                 DispatchEvent stateCombobox ''input'', DispatchEvent stateCombobox ''change'',
                 Log FilledMainPage, WaitForTimeout 300])"
  by code_simp

section \<open>Selector-like targets\<close>

text \<open>
  Claim C5, as amended. A target is never resolved as a selector: for every target, also
  one that begins with \<open>#\<close>, \<open>.\<close> or \<open>[\<close>, an element is clicked or assigned only if it
  passed the attribute scan for the case-folded target, and the first pass of every
  call on an open page is the attribute scan of the main page.
\<close>

theorem selector_targets_scanned_as_text:
  "(Click el \<in> set (snd (clickWithRetry g target maxRetries)) \<longrightarrow>
      isClickable el \<and> clickMatch (toLowerCase g) (toLowerCase g target) el) \<and>
   (SetValue el v \<in> set (snd (fillWithRetry g target val maxRetries)) \<longrightarrow>
      isInput el \<and> fillMatch (toLowerCase g) (toLowerCase g target) el) \<and>
   (state_page g = Some pg \<and> \<not> isClosed pg \<longrightarrow>
      take 2 (snd (clickWithRetry g target maxRetries)) =
        [Log (ClickSearch target), Evaluate MainPass] \<and>
      take 2 (snd (fillWithRetry g target val maxRetries)) =
        [Log (FillSearch target), Evaluate MainPass])"
proof (intro conjI impI)
  assume "Click el \<in> set (snd (clickWithRetry g target maxRetries))"
  with clickWithRetry_events [of g target maxRetries]
  have "clickEvent (toLowerCase g) (toLowerCase g target) (Click el)"
    by (auto simp: list_all_iff)
  then show "isClickable el" "clickMatch (toLowerCase g) (toLowerCase g target) el"
    by simp_all
next
  assume "SetValue el v \<in> set (snd (fillWithRetry g target val maxRetries))"
  with fillWithRetry_events [of g target val maxRetries]
  have "fillEvent (toLowerCase g) (toLowerCase g target) val (SetValue el v)"
    by (auto simp: list_all_iff)
  then show "isInput el" "fillMatch (toLowerCase g) (toLowerCase g target) el"
    by simp_all
next
  assume o: "state_page g = Some pg \<and> \<not> isClosed pg"
  from first_pass_is_main(1) [of "toLowerCase g" pg "allPages g" target]
  obtain rest where r:
    "snd (clickSearch (toLowerCase g) pg (allPages g) target) = Evaluate MainPass # rest"
    by blast
  with o show "take 2 (snd (clickWithRetry g target maxRetries)) =
                 [Log (ClickSearch target), Evaluate MainPass]"
    by (simp add: clickWithRetry_def snd_andThen snd_tryCatch log_def split: sum.splits)
  from first_pass_is_main(2) [of "toLowerCase g" pg "allPages g" target val]
  obtain rest' where r':
    "snd (fillSearch (toLowerCase g) pg (allPages g) target val) = Evaluate MainPass # rest'"
    by blast
  with o show "take 2 (snd (fillWithRetry g target val maxRetries)) =
                 [Log (FillSearch target), Evaluate MainPass]"
    by (simp add: fillWithRetry_def snd_andThen snd_tryCatch log_def split: sum.splits)
qed

theorem selector_targets_scanned_as_text_witness:
  "spec_isSelectorLike (str ''.com'') \<and>
   SetValue contactInput (str ''me@example.com'')
     \<in> set (snd (fillWithRetry (onlyMain [contactInput]) (str ''.com'')
                  (str ''me@example.com'') 1)) \<and>
   fillMatch sampleToLowerCase (sampleToLowerCase (str ''.com'')) contactInput \<and>
   take 2 (snd (fillWithRetry (onlyMain [contactInput]) (str ''.com'')
                  (str ''me@example.com'') 1)) =
     [Log (FillSearch (str ''.com'')), Evaluate MainPass]"
proof -
  have s: "spec_isSelectorLike (str ''.com'')"
    by code_simp
  have h: "SetValue contactInput (str ''me@example.com'')
             \<in> set (snd (fillWithRetry (onlyMain [contactInput]) (str ''.com'')
                          (str ''me@example.com'') 1))"
    by code_simp
  have o: "state_page (onlyMain [contactInput]) = Some (openPage [contactInput]) \<and>
           \<not> isClosed (openPage [contactInput]) \<and>
           toLowerCase (onlyMain [contactInput]) = sampleToLowerCase"
    by (simp add: onlyMain_def withPages_def openPage_def)
  from selector_targets_scanned_as_text [of contactInput "onlyMain [contactInput]"
      "str ''.com''" 1 "str ''me@example.com''" "str ''me@example.com''"
      "openPage [contactInput]"] s h o
  show ?thesis by simp
qed

text \<open>
  Claim C5 as stated resolves \<open>#email\<close> by a direct lookup, which finds the visible,
  enabled input whose id is \<open>email\<close>. The fill scans for the substring \<open>#email\<close>
  instead and returns false.
\<close>

theorem selector_not_resolved_counterexample:
  "spec_isSelectorLike (str ''#email'') \<and>
   spec_idLookup (str ''#email'') [emailInput] = Some emailInput \<and>
   isInput emailInput \<and> spec_visible emailInput \<and> spec_enabled emailInput \<and>
   fillWithRetry (onlyMain [emailInput]) (str ''#email'') (str ''a@b.c'') 1 =
     (Inr False, [Log (FillSearch (str ''#email'')), Evaluate MainPass, Evaluate IframePass,
                  Log (FillNotFound (str ''#email''))])"
  by code_simp

section \<open>Which attributes a scan compares\<close>




section \<open>Visibility and enabledness\<close>

text \<open>
  Claim C7 at an input that is disabled, of zero size and hidden, inside an iframe: the
  fill assigns to it and returns true; and at a hidden button of zero size in a popup:
  the click search clicks it and returns true. On the main page the same input is passed
  over.
\<close>

theorem hidden_disabled_elements_acted_on:
  "\<not> spec_visible hiddenDisabledInput \<and> \<not> spec_enabled hiddenDisabledInput \<and>
   fillWithRetry framedHiddenInput (str ''name'') (str ''Bob'') 1 =
     (Inr True, [Log (FillSearch (str ''name'')), Evaluate MainPass, Evaluate IframePass,
                 SetValue hiddenDisabledInput (str ''Bob''),
                 DispatchEvent hiddenDisabledInput ''input'',
                 DispatchEvent hiddenDisabledInput ''change'',
                 Log FilledIframe, WaitForTimeout 300]) \<and>
   \<not> spec_visible hiddenButton \<and>
   clickWithRetry popupHiddenButton (str ''delete'') 1 =
     (Inr True, [Log (ClickSearch (str ''delete'')), Evaluate MainPass, Evaluate IframePass,
                 Evaluate PopupPass, ScrollIntoView hiddenButton, Click hiddenButton,
                 Log ClickedPopup, WaitForTimeout 500]) \<and>
   fillWithRetry (onlyMain [hiddenDisabledInput]) (str ''name'') (str ''Bob'') 1 =
     (Inr False, [Log (FillSearch (str ''name'')), Evaluate MainPass, Evaluate IframePass,
                  Log (FillNotFound (str ''name''))])"
  by code_simp

section \<open>Letter case\<close>

text \<open>
  Claim C8, as amended. Target and attributes are compared through \<open>toLowerCase\<close>: an
  element whose attribute or text has the same lowercase form as the target passes the
  match test of every scan that compares that attribute, and two targets with the same
  lowercase form give the same result.
\<close>

theorem same_lowercase_form_matches:
  "(toLower a = toLower target \<longrightarrow>
      (textContent el = a \<or> getAttribute el ''aria-label'' = Some a \<or>
       getAttribute el ''title'' = Some a \<longrightarrow> clickMatch toLower (toLower target) el) \<and>
      (textContent el = a \<or> getAttribute el ''aria-label'' = Some a
         \<longrightarrow> clickMatchPopup toLower (toLower target) el) \<and>
      (placeholder el = a \<or> getAttribute el ''aria-label'' = Some a \<or>
       getAttribute el ''id'' = Some a \<or> getAttribute el ''name'' = Some a
         \<longrightarrow> fillMatch toLower (toLower target) el) \<and>
      (placeholder el = a \<or> getAttribute el ''aria-label'' = Some a
         \<longrightarrow> fillMatchPopup toLower (toLower target) el)) \<and>
   (toLowerCase g t1 = toLowerCase g t2 \<longrightarrow>
      fst (clickWithRetry g t1 maxRetries) = fst (clickWithRetry g t2 maxRetries) \<and>
      fst (fillWithRetry g t1 val maxRetries) = fst (fillWithRetry g t2 val maxRetries))"
proof (intro conjI impI)
  assume e: "toLower a = toLower target"
  have i: "includesStr (toLower a) (toLower target)"
    unfolding e by (rule includesStr_refl)
  {
    assume "textContent el = a \<or> getAttribute el ''aria-label'' = Some a \<or>
            getAttribute el ''title'' = Some a"
    with i show "clickMatch toLower (toLower target) el"
      by (auto simp: clickMatch_def lowerOrEmpty_def Let_def)
  }
  {
    assume "textContent el = a \<or> getAttribute el ''aria-label'' = Some a"
    with i show "clickMatchPopup toLower (toLower target) el"
      by (auto simp: clickMatchPopup_def lowerOrEmpty_def Let_def)
  }
  {
    assume "placeholder el = a \<or> getAttribute el ''aria-label'' = Some a \<or>
            getAttribute el ''id'' = Some a \<or> getAttribute el ''name'' = Some a"
    with i show "fillMatch toLower (toLower target) el"
      by (auto simp: fillMatch_def lowerOrEmpty_def Let_def)
  }
  {
    assume "placeholder el = a \<or> getAttribute el ''aria-label'' = Some a"
    with i show "fillMatchPopup toLower (toLower target) el"
      by (auto simp: fillMatchPopup_def lowerOrEmpty_def Let_def)
  }
next
  assume "toLowerCase g t1 = toLowerCase g t2"
  then show "fst (clickWithRetry g t1 maxRetries) = fst (clickWithRetry g t2 maxRetries)"
    "fst (fillWithRetry g t1 val maxRetries) = fst (fillWithRetry g t2 val maxRetries)"
    by (rule same_form_same_result)+
qed

theorem same_lowercase_form_matches_witness:
  "differsOnlyInCase (str ''Function Id'') (str ''function id'') \<and>
   sampleToLowerCase (str ''Function Id'') = sampleToLowerCase (str ''function id'') \<and>
   placeholder functionIdInput = str ''Function Id'' \<and>
   fillMatch sampleToLowerCase (sampleToLowerCase (str ''function id'')) functionIdInput \<and>
   fillMatchPopup sampleToLowerCase (sampleToLowerCase (str ''function id'')) functionIdInput \<and>
   fst (fillWithRetry (onlyMain [functionIdInput]) (str ''Function Id'') (str ''7'') 1) =
     fst (fillWithRetry (onlyMain [functionIdInput]) (str ''function id'') (str ''7'') 1)"
proof -
  have d: "differsOnlyInCase (str ''Function Id'') (str ''function id'')"
    "931 \<notin> set (str ''Function Id'')" "931 \<notin> set (str ''function id'')"
    by code_simp+
  from sample_identifies_case [OF d]
  have e: "sampleToLowerCase (str ''Function Id'') = sampleToLowerCase (str ''function id'')" .
  have p: "placeholder functionIdInput = str ''Function Id''"
    by code_simp
  have g: "toLowerCase (onlyMain [functionIdInput]) = sampleToLowerCase"
    by (simp add: onlyMain_def withPages_def)
  from same_lowercase_form_matches [where toLower = sampleToLowerCase
      and a = "str ''Function Id''" and target = "str ''function id''"
      and el = functionIdInput and g = "onlyMain [functionIdInput]"
      and ?t1.0 = "str ''Function Id''" and ?t2.0 = "str ''function id''"
      and val = "str ''7''" and maxRetries = 1] d(1) e p g
  show ?thesis by simp
qed

text \<open>
  Claim C8 as stated lets any two strings that differ only in letter case match. The
  capital sigma that ends the target is folded to the final sigma, which the text of
  the button, with its ordinary small sigma, does not contain: the button is not found.
\<close>

theorem final_sigma_counterexample:
  "differsOnlyInCase [913, 931] [945, 963] \<and>
   sampleToLowerCase [913, 931] = [945, 962] \<and>
   sampleToLowerCase [945, 963] = [945, 963] \<and>
   isClickable sigmaButton \<and> spec_visible sigmaButton \<and>
   textContent sigmaButton = [945, 963] \<and>
   clickWithRetry (onlyMain [sigmaButton]) [913, 931] 1 =
     (Inr False, [Log (ClickSearch [913, 931]), Evaluate MainPass, Evaluate IframePass,
                  Log (ClickNotFound [913, 931])])"
  by code_simp

section \<open>No page, no search\<close>

text \<open>
  Claim C9. When \<open>state.page\<close> is unset, or the page is closed when the call is made,
  \<open>clickWithRetry\<close> and \<open>fillWithRetry\<close> return false and their trace is empty: no
  evaluation, no action on an element, not even a log line.
\<close>

theorem closed_page_returns_false:
  assumes "state_page g = None \<or> (\<exists>pg. state_page g = Some pg \<and> isClosed pg)"
  shows "clickWithRetry g target maxRetries = (Inr False, []) \<and>
         fillWithRetry g target val maxRetries = (Inr False, [])"
  using assms by (auto simp: clickWithRetry_def fillWithRetry_def ret_def)

theorem closed_page_returns_false_witness:
  "isClosed (closedPage [submitButton, emailInput]) \<and>
   clickWithRetry (withPages (Some (closedPage [submitButton, emailInput])) [])
     (str ''Submit'') 1 = (Inr False, []) \<and>
   fillWithRetry (withPages (Some (closedPage [submitButton, emailInput])) [])
     (str ''email'') (str ''a'') 1 = (Inr False, [])"
proof -
  have c: "isClosed (closedPage [submitButton, emailInput])"
    by (simp add: closedPage_def)
  then have "state_page (withPages (Some (closedPage [submitButton, emailInput])) []) = None \<or>
             (\<exists>pg. state_page (withPages (Some (closedPage [submitButton, emailInput])) [])
                      = Some pg \<and> isClosed pg)"
    by (simp add: withPages_def)
  from closed_page_returns_false [OF this, of "str ''Submit''" 1 "str ''a''"]
    closed_page_returns_false [OF this, of "str ''email''" 1 "str ''a''"] c
  show ?thesis by simp
qed

section \<open>The retry parameter\<close>

text \<open>
  Claim C10. The result of \<open>clickWithRetry\<close> and of \<open>fillWithRetry\<close>, trace included,
  is the same for any two values of \<open>maxRetries\<close>.
\<close>

theorem maxRetries_ignored:
  "clickWithRetry g target m1 = clickWithRetry g target m2 \<and>
   fillWithRetry g target val m1 = fillWithRetry g target val m2"
  by (simp add: clickWithRetry_def fillWithRetry_def)

theorem maxRetries_ignored_witness:
  "clickWithRetry (onlyMain [submitButton]) (str ''Submit'') 1 =
     clickWithRetry (onlyMain [submitButton]) (str ''Submit'') 5 \<and>
   fillWithRetry (onlyMain [emailInput]) (str ''email'') (str ''a'') 0 =
     fillWithRetry (onlyMain [emailInput]) (str ''email'') (str ''a'') 2"
  using maxRetries_ignored [of "onlyMain [submitButton]" "str ''Submit''" 1 5]
    maxRetries_ignored [of "onlyMain [emailInput]" "str ''email''" 0 2 "str ''a''"]
  by simp

end
